theory Spec2Isabelle
  imports Main
begin

section \<open>Data model of release.js\<close>

text \<open>
  The script reads and rewrites \<^verbatim>\<open>package.json\<close> manifests, asks the operator
  questions, and runs external commands. A manifest is kept as the value
  \<^verbatim>\<open>JSON.parse\<close> yields: an object is a list of key/value pairs in key order.
  The same values serve for what \<^verbatim>\<open>minimist\<close> parses from the command line (a string, a
  number, \<^verbatim>\<open>true\<close> or \<^verbatim>\<open>false\<close>); there \<open>JNull\<close> also stands for \<^verbatim>\<open>undefined\<close>, an
  option that was not given. Numbers are integers here: the script only tests a number
  for truthiness, and a fraction is truthy like every integer other than 0.
\<close>

datatype json =
    JNull
  | JBool bool
  | JNum int
  | JStr string
  | JArr "json list"
  | JObj "(string \<times> json) list"

type_synonym obj = "(string \<times> json) list"

text \<open>
  JavaScript truthiness, as used by \<^verbatim>\<open>if (!deps)\<close>, \<^verbatim>\<open>if (pkg.private)\<close>,
  \<^verbatim>\<open>args.preid || ...\<close> and \<^verbatim>\<open>if (args.tag)\<close>.
\<close>

fun truthy :: "json \<Rightarrow> bool" where
  "truthy JNull = False"
| "truthy (JBool b) = b"
| "truthy (JNum n) = (n \<noteq> 0)"
| "truthy (JStr s) = (s \<noteq> [])"
| "truthy (JArr xs) = True"
| "truthy (JObj kvs) = True"

text \<open>A property that is absent reads as \<^verbatim>\<open>undefined\<close>, which is falsy.\<close>

definition truthyProp :: "json option \<Rightarrow> bool" where
  "truthyProp v = (case v of None \<Rightarrow> False | Some j \<Rightarrow> truthy j)"

text \<open>
  \<^verbatim>\<open>o[k] = v\<close>: an existing key keeps its position, a new key goes to the end.
\<close>

fun setProp :: "string \<Rightarrow> json \<Rightarrow> obj \<Rightarrow> obj" where
  "setProp k v [] = [(k, v)]"
| "setProp k v (p # ps) = (if fst p = k then (k, v) # ps else p # setProp k v ps)"

definition startsWith :: "string \<Rightarrow> string \<Rightarrow> bool" where
  "startsWith s p = (take (length p) s = p)"

definition endsWith :: "string \<Rightarrow> string \<Rightarrow> bool" where
  "endsWith s p = (length p \<le> length s \<and> drop (length s - length p) s = p)"

text \<open>\<^verbatim>\<open>s.includes(sub)\<close> and \<^verbatim>\<open>s.match(/sub/)\<close> for a literal \<open>sub\<close>.\<close>

fun includesStr :: "string \<Rightarrow> string \<Rightarrow> bool" where
  "includesStr [] sub = (sub = [])"
| "includesStr (c # cs) sub = (startsWith (c # cs) sub \<or> includesStr cs sub)"

text \<open>
  Directories that hold a manifest: the repository root and
  \<^verbatim>\<open>packages/<name>\<close> (\<^verbatim>\<open>getPkgRoot\<close>).
\<close>

datatype dir = RootDir | PkgDir string

definition getPkgRoot :: "string \<Rightarrow> dir" where
  "getPkgRoot pkg = PkgDir pkg"

text \<open>
  The manifest files, each as the JSON value it holds. \<open>None\<close> stands for a
  \<^verbatim>\<open>package.json\<close> that cannot be read or is not JSON (\<^verbatim>\<open>readFileSync\<close> or
  \<^verbatim>\<open>JSON.parse\<close> throws). Since \<^verbatim>\<open>JSON.stringify(pkg, null, 2) + '\n'\<close> is a function
  of the parsed value, the text of a written file is determined by the value stored here.
\<close>

type_synonym files = "dir \<Rightarrow> json option"

text \<open>
  A command as the script passes it on. The arguments are values, since line 250 may put
  \<^verbatim>\<open>args.tag\<close> among them as \<^verbatim>\<open>minimist\<close> parsed it.
\<close>

record command =
  bin :: string
  argv :: "json list"
  cwd :: "dir option"
  stdio :: "string option"

datatype cmd_result = Resolved string | Rejected string

datatype prompt_kind =
    SelectRelease "string list"
  | InputVersion json
  | ConfirmRelease string

text \<open>
  What can be thrown: a prompt that rejects, the \<^verbatim>\<open>TypeError\<close> of line 91 when the
  answer has no parenthesis, the error of line 97, a manifest that cannot be read or
  parsed, the \<^verbatim>\<open>TypeError\<close> of lines 190 and 219 when the manifest is \<^verbatim>\<open>null\<close>, and a
  command that fails, with its \<^verbatim>\<open>stderr\<close>.
\<close>

datatype error =
    PromptCancelled
  | NoParenthesis string
  | InvalidTargetVersion json
  | ReadFailed dir
  | NullManifest dir
  | ExecFailed command string

text \<open>
  What the script prints with \<^verbatim>\<open>console.log\<close> and \<^verbatim>\<open>step\<close>, one constructor for each
  message of the source, with the values the message interpolates.
\<close>

datatype msg =
    RunningTests
  | NoUnitTests
  | SkippedNote
  | UpdatingCrossDeps
  | DepUpdated "json option" string string string
  | BuildingAll
  | VerifyingTypes
  | NoDtsTests
  | CommittingChanges
  | NoChanges
  | PublishingPackages
  | Publishing string
  | Published string string
  | SkippingAlreadyPublished string
  | PushingToGitHub
  | DryRunFinished
  | SkippedSummary "string list"
  | EmptyLine

datatype event =
    Log msg
  | Prompt prompt_kind
  | Exec command
  | DryLog command
  | ReadManifest dir
  | WriteManifest dir json
  | ConsoleError error

record state =
  files :: files
  trace :: "event list"
  skippedPackages :: "string list"

text \<open>
  Everything fixed before \<^verbatim>\<open>main()\<close> starts: the command line as \<^verbatim>\<open>minimist\<close> parsed
  it (\<^verbatim>\<open>args._[0]\<close> and the options), the version of the root manifest, the listing of
  \<^verbatim>\<open>packages/\<close>, the semver library, the answers the operator will give (\<open>None\<close>: the
  prompt is cancelled and rejects) and the outside world that runs commands. A command's
  result may depend on everything that happened before, and a command may change the
  manifest files. \<^verbatim>\<open>semver.valid\<close> is given on strings: of anything else it returns
  \<^verbatim>\<open>null\<close>. \<^verbatim>\<open>semver.prerelease\<close> returns \<^verbatim>\<open>null\<close> or the list of prerelease
  components, each a string or a number.
\<close>

record env =
  arg_positional :: json
  arg_preid :: json
  arg_dry :: json
  arg_skipTests :: json
  arg_skipBuild :: json
  arg_tag :: json
  currentVersion :: json
  listing :: "string list"
  semver_valid :: "string \<Rightarrow> bool"
  semver_inc :: "json \<Rightarrow> string \<Rightarrow> json \<Rightarrow> string option"
  semver_prerelease :: "json \<Rightarrow> json list option"
  execa :: "event list \<Rightarrow> files \<Rightarrow> command \<Rightarrow> cmd_result \<times> files"
  answer_release :: "string option"
  answer_version :: "string option"
  answer_yes :: "bool option"

section \<open>Module-level constants (lines 17-63)\<close>

text \<open>
  \<^verbatim>\<open>args.preid || (semver.prerelease(currentVersion) && semver.prerelease(currentVersion)[0])\<close>:
  the first operand when it is truthy; else \<^verbatim>\<open>null\<close> when there is no prerelease part,
  and else its first component (\<^verbatim>\<open>undefined\<close> for an empty list).
\<close>

definition preId :: "env \<Rightarrow> json" where
  "preId env =
     (if truthy (arg_preid env) then arg_preid env
      else (case semver_prerelease env (currentVersion env) of
              None \<Rightarrow> JNull
            | Some ids \<Rightarrow> (case ids of [] \<Rightarrow> JNull | i # rest \<Rightarrow> i)))"

text \<open>
  The three flags are only ever tested for truthiness (lines 58, 116, 130, 164).
\<close>

definition isDryRun :: "env \<Rightarrow> bool" where
  "isDryRun env = truthy (arg_dry env)"

definition skipTests :: "env \<Rightarrow> bool" where
  "skipTests env = truthy (arg_skipTests env)"

definition skipBuild :: "env \<Rightarrow> bool" where
  "skipBuild env = truthy (arg_skipBuild env)"

definition packages :: "env \<Rightarrow> string list" where
  "packages env = filter (\<lambda>p. \<not> endsWith p ''.ts'' \<and> \<not> startsWith p ''.'') (listing env)"

definition versionIncrements :: "env \<Rightarrow> string list" where
  "versionIncrements env =
     [''patch'', ''minor'', ''major'']
     @ (if truthy (preId env) then [''prepatch'', ''preminor'', ''premajor'', ''prerelease'']
        else [])"

definition inc :: "env \<Rightarrow> string \<Rightarrow> string option" where
  "inc env i = semver_inc env (currentVersion env) i (preId env)"

section \<open>Actions: state passing with errors as values\<close>

type_synonym 'a action = "state \<Rightarrow> state \<times> (error + 'a)"

definition ok :: "'a \<Rightarrow> 'a action" where
  "ok x st = (st, Inr x)"

definition throw :: "error \<Rightarrow> 'a action" where
  "throw e st = (st, Inl e)"

definition andThen :: "'a action \<Rightarrow> ('a \<Rightarrow> 'b action) \<Rightarrow> 'b action" where
  "andThen m f st = (case m st of (st1, Inl e) \<Rightarrow> (st1, Inl e) | (st1, Inr x) \<Rightarrow> f x st1)"

definition tryCatch :: "'a action \<Rightarrow> (error \<Rightarrow> 'a action) \<Rightarrow> 'a action" where
  "tryCatch m h st = (case m st of (st1, Inl e) \<Rightarrow> h e st1 | (st1, Inr x) \<Rightarrow> (st1, Inr x))"

fun forEach :: "('a \<Rightarrow> unit action) \<Rightarrow> 'a list \<Rightarrow> unit action" where
  "forEach f [] = ok ()"
| "forEach f (x # xs) = andThen (f x) (\<lambda>u. forEach f xs)"

definition emit :: "event list \<Rightarrow> unit action" where
  "emit evs st = (st\<lparr>trace := trace st @ evs\<rparr>, Inr ())"

definition log :: "msg \<Rightarrow> unit action" where
  "log m = emit [Log m]"

definition step :: "msg \<Rightarrow> unit action" where
  "step m = emit [Log m]"

text \<open>\<^verbatim>\<open>run\<close> (lines 51-52): \<^verbatim>\<open>execa(bin, args, { stdio: 'inherit', ...opts })\<close>.\<close>

definition effective :: "command \<Rightarrow> command" where
  "effective c = c\<lparr>stdio := Some (case stdio c of None \<Rightarrow> ''inherit'' | Some s \<Rightarrow> s)\<rparr>"

definition run :: "env \<Rightarrow> command \<Rightarrow> string action" where
  "run env c st =
     (case execa env (trace st) (files st) (effective c) of
        (Resolved out, fs1) \<Rightarrow>
          (st\<lparr>files := fs1, trace := trace st @ [Exec (effective c)]\<rparr>, Inr out)
      | (Rejected err, fs1) \<Rightarrow>
          (st\<lparr>files := fs1, trace := trace st @ [Exec (effective c)]\<rparr>,
           Inl (ExecFailed (effective c) err)))"

text \<open>\<^verbatim>\<open>dryRun\<close> (lines 54-55) only prints the command.\<close>

definition dryRun :: "command \<Rightarrow> unit action" where
  "dryRun c = emit [DryLog c]"

definition runIfNotDry :: "env \<Rightarrow> command \<Rightarrow> unit action" where
  "runIfNotDry env c =
     (if isDryRun env then dryRun c else andThen (run env c) (\<lambda>out. ok ()))"

definition cmd :: "string \<Rightarrow> string list \<Rightarrow> command" where
  "cmd b as = \<lparr>bin = b, argv = map JStr as, cwd = None, stdio = None\<rparr>"

section \<open>Version propagation (lines 180-210)\<close>

definition stripVueScope :: "string \<Rightarrow> string" where
  "stripVueScope dep = (if startsWith dep ''@vue/'' then drop 5 dep else dep)"

text \<open>The test of line 201-202.\<close>

definition depMatches :: "string list \<Rightarrow> string \<Rightarrow> bool" where
  "depMatches pkgs dep =
     (dep = ''vue'' \<or> (startsWith dep ''@vue'' \<and> stripVueScope dep \<in> set pkgs))"

text \<open>The callback of \<^verbatim>\<open>Object.keys(deps).forEach\<close>, on the object and the lines printed so far.\<close>

definition updateDep ::
  "string list \<Rightarrow> json option \<Rightarrow> string \<Rightarrow> string \<Rightarrow> string \<Rightarrow> obj \<times> msg list \<Rightarrow> obj \<times> msg list" where
  "updateDep pkgs pkgName depType version dep acc =
     (if depMatches pkgs dep
      then (setProp dep (JStr version) (fst acc),
            snd acc @ [DepUpdated pkgName depType dep version])
      else acc)"

text \<open>
  \<^verbatim>\<open>updateDeps\<close> returns the manifest and the lines it printed. The keys of an array
  or a string are decimal indices, which line 201-202 never accepts, and a number or
  \<^verbatim>\<open>true\<close> has no keys: only an object can change.
\<close>

definition updateDeps :: "string list \<Rightarrow> obj \<Rightarrow> string \<Rightarrow> string \<Rightarrow> obj \<times> msg list" where
  "updateDeps pkgs pkg depType version =
     (case map_of pkg depType of
        None \<Rightarrow> (pkg, [])
      | Some d \<Rightarrow>
          if \<not> truthy d then (pkg, [])
          else (case d of
                  JObj deps \<Rightarrow>
                    (let r = fold (updateDep pkgs (map_of pkg ''name'') depType version)
                                  (map fst deps) (deps, [])
                     in (setProp depType (JObj (fst r)) pkg, snd r))
                | _ \<Rightarrow> (pkg, [])))"

text \<open>The object \<^verbatim>\<open>updatePackage\<close> writes back, and what it prints on the way.\<close>

definition updatedManifest :: "string list \<Rightarrow> string \<Rightarrow> obj \<Rightarrow> obj \<times> msg list" where
  "updatedManifest pkgs version pkg =
     (let pkg0 = setProp ''version'' (JStr version) pkg;
          r1 = updateDeps pkgs pkg0 ''dependencies'' version;
          r2 = updateDeps pkgs (fst r1) ''peerDependencies'' version
      in (fst r2, snd r1 @ snd r2))"

text \<open>
  What lines 190-192 make of the parsed value, when it is not \<^verbatim>\<open>null\<close>. An object gets
  the version and has its dependency maps rewritten. Of the other values none has
  \<^verbatim>\<open>dependencies\<close> or \<^verbatim>\<open>peerDependencies\<close>; the assignment of line 190 does nothing to a
  string, a number or a boolean, and on an array it sets a property that
  \<^verbatim>\<open>JSON.stringify\<close> leaves out: the value is written back as it was read.
\<close>

definition updatedDocument :: "string list \<Rightarrow> string \<Rightarrow> json \<Rightarrow> json \<times> msg list" where
  "updatedDocument pkgs version doc =
     (case doc of
        JObj pkg \<Rightarrow>
          (JObj (fst (updatedManifest pkgs version pkg)), snd (updatedManifest pkgs version pkg))
      | _ \<Rightarrow> (doc, []))"

definition readManifest :: "dir \<Rightarrow> json action" where
  "readManifest d st =
     (case files st d of
        None \<Rightarrow> (st\<lparr>trace := trace st @ [ReadManifest d]\<rparr>, Inl (ReadFailed d))
      | Some pkg \<Rightarrow> (st\<lparr>trace := trace st @ [ReadManifest d]\<rparr>, Inr pkg))"

text \<open>\<^verbatim>\<open>writeFileSync\<close> is taken to succeed: the file was read at the same path just before.\<close>

definition writeManifest :: "dir \<Rightarrow> json \<Rightarrow> unit action" where
  "writeManifest d pkg st =
     (st\<lparr>files := (files st)(d \<mapsto> pkg), trace := trace st @ [WriteManifest d pkg]\<rparr>, Inr ())"

text \<open>Line 190 throws a \<^verbatim>\<open>TypeError\<close> when the file holds \<^verbatim>\<open>null\<close>.\<close>

definition updatePackage :: "env \<Rightarrow> dir \<Rightarrow> string \<Rightarrow> unit action" where
  "updatePackage env pkgRoot version =
     andThen (readManifest pkgRoot)
       (\<lambda>pkg. if pkg = JNull then throw (NullManifest pkgRoot)
             else andThen (emit (map Log (snd (updatedDocument (packages env) version pkg))))
                    (\<lambda>u. writeManifest pkgRoot
                           (fst (updatedDocument (packages env) version pkg))))"

definition updateVersions :: "env \<Rightarrow> string \<Rightarrow> unit action" where
  "updateVersions env version =
     andThen (updatePackage env RootDir version)
       (\<lambda>u. forEach (\<lambda>p. updatePackage env (getPkgRoot p) version) (packages env))"

section \<open>Resolving the target version (lines 68-110)\<close>

text \<open>
  \<^verbatim>\<open>release.match(/\\((.*)\\)/)[1]\<close>: the dot matches no line terminator, so the match lies
  in one line; it starts at the first opening parenthesis of the first line that has a
  closing one after it, and the group runs to the last closing parenthesis of that line.
\<close>

definition lineTerminator :: "char \<Rightarrow> bool" where
  "lineTerminator c = (c = CHR 0x0A \<or> c = CHR 0x0D)"

fun splitLines :: "string \<Rightarrow> string list" where
  "splitLines [] = [[]]"
| "splitLines (c # cs) =
     (if lineTerminator c then [] # splitLines cs
      else (case splitLines cs of [] \<Rightarrow> [[c]] | l # ls \<Rightarrow> (c # l) # ls))"

definition groupInLine :: "string \<Rightarrow> string option" where
  "groupInLine l =
     (case dropWhile (\<lambda>c. c \<noteq> CHR ''('') l of
        [] \<Rightarrow> None
      | p # rest \<Rightarrow>
          if CHR '')'' \<in> set rest
          then Some (rev (tl (dropWhile (\<lambda>c. c \<noteq> CHR '')'') (rev rest))))
          else None)"

fun firstSome :: "('a \<Rightarrow> 'b option) \<Rightarrow> 'a list \<Rightarrow> 'b option" where
  "firstSome f [] = None"
| "firstSome f (x # xs) = (case f x of None \<Rightarrow> firstSome f xs | Some y \<Rightarrow> Some y)"

definition matchParens :: "string \<Rightarrow> string option" where
  "matchParens s = firstSome groupInLine (splitLines s)"

definition promptFor :: "prompt_kind \<Rightarrow> 'a option \<Rightarrow> 'a action" where
  "promptFor k ans =
     andThen (emit [Prompt k])
       (\<lambda>u. case ans of None \<Rightarrow> throw PromptCancelled | Some a \<Rightarrow> ok a)"

text \<open>The choices of the select prompt (line 76); \<^verbatim>\<open>null\<close> prints as \<open>null\<close>.\<close>

definition choices :: "env \<Rightarrow> string list" where
  "choices env =
     map (\<lambda>i. i @ '' ('' @ (case inc env i of None \<Rightarrow> ''null'' | Some v \<Rightarrow> v) @ '')'')
         (versionIncrements env)
     @ [''custom'']"

text \<open>Lines 72-92: both prompts answer with a string.\<close>

definition askTargetVersion :: "env \<Rightarrow> json action" where
  "askTargetVersion env =
     andThen (promptFor (SelectRelease (choices env)) (answer_release env))
       (\<lambda>release.
          if release = ''custom''
          then andThen (promptFor (InputVersion (currentVersion env)) (answer_version env))
                 (\<lambda>version. ok (JStr version))
          else (case matchParens release of
                  None \<Rightarrow> throw (NoParenthesis release)
                | Some v \<Rightarrow> ok (JStr v)))"

text \<open>Lines 68-93: \<^verbatim>\<open>args._[0]\<close> when it is truthy, else what the operator chooses.\<close>

definition resolveTargetVersion :: "env \<Rightarrow> json action" where
  "resolveTargetVersion env =
     (if \<not> truthy (arg_positional env) then askTargetVersion env
      else ok (arg_positional env))"

section \<open>The stages of main (lines 112-177)\<close>

text \<open>
  Lines 115-122. The two commands that ran the tests are commented out in the source
  (lines 117-118); the branch prints a note that there are no unit tests.
\<close>

definition testGate :: "env \<Rightarrow> unit action" where
  "testGate env =
     andThen (step RunningTests)
       (\<lambda>u. if \<not> skipTests env \<and> \<not> isDryRun env then log NoUnitTests else log SkippedNote)"

text \<open>Lines 124-126.\<close>

definition propagateStage :: "env \<Rightarrow> string \<Rightarrow> unit action" where
  "propagateStage env version =
     andThen (step UpdatingCrossDeps) (\<lambda>u. updateVersions env version)"

text \<open>Lines 128-138.\<close>

definition yarnBuild :: command where
  "yarnBuild = cmd ''yarn'' [''build'', ''--release'']"

definition buildGate :: "env \<Rightarrow> unit action" where
  "buildGate env =
     andThen (step BuildingAll)
       (\<lambda>u. if \<not> skipBuild env \<and> \<not> isDryRun env
            then andThen (run env yarnBuild)
                   (\<lambda>out. andThen (step VerifyingTypes) (\<lambda>u. log NoDtsTests))
            else log SkippedNote)"

text \<open>Lines 143-150.\<close>

definition gitDiff :: command where
  "gitDiff = (cmd ''git'' [''diff''])\<lparr>stdio := Some ''pipe''\<rparr>"

definition gitAdd :: command where
  "gitAdd = cmd ''git'' [''add'', ''-A'']"

definition gitCommit :: "string \<Rightarrow> command" where
  "gitCommit version = cmd ''git'' [''commit'', ''-m'', ''release: v'' @ version]"

definition commitStage :: "env \<Rightarrow> string \<Rightarrow> unit action" where
  "commitStage env version =
     andThen (run env gitDiff)
       (\<lambda>stdout.
          if stdout \<noteq> []
          then andThen (step CommittingChanges)
                 (\<lambda>u. andThen (runIfNotDry env gitAdd)
                    (\<lambda>u. runIfNotDry env (gitCommit version)))
          else log NoChanges)"

text \<open>\<^verbatim>\<open>publishPackage\<close>, lines 212-267.\<close>

text \<open>Lines 225-237; \<open>JNull\<close> is the \<^verbatim>\<open>null\<close> of line 225.\<close>

definition releaseTag :: "env \<Rightarrow> string \<Rightarrow> string \<Rightarrow> json" where
  "releaseTag env pkgName version =
     (if truthy (arg_tag env) then arg_tag env
      else if includesStr version ''alpha'' then JStr ''alpha''
      else if includesStr version ''beta'' then JStr ''beta''
      else if includesStr version ''rc'' then JStr ''rc''
      else if pkgName = ''vue'' then JStr ''next''
      else JNull)"

text \<open>The command of lines 244-258.\<close>

definition publishCommand :: "env \<Rightarrow> string \<Rightarrow> string \<Rightarrow> command" where
  "publishCommand env pkgName version =
     \<lparr>bin = ''yarn'',
      argv = [JStr ''publish'', JStr ''--new-version'', JStr version]
             @ (if truthy (releaseTag env pkgName version)
                then [JStr ''--tag'', releaseTag env pkgName version]
                else [])
             @ [JStr ''--access'', JStr ''public''],
      cwd = Some (getPkgRoot pkgName),
      stdio = Some ''pipe''\<rparr>"

text \<open>
  The handler of lines 260-266. The body of the \<^verbatim>\<open>try\<close> can only fail in
  \<^verbatim>\<open>run\<close>, with the error of the command and its \<^verbatim>\<open>stderr\<close>.
\<close>

definition publishFailed :: "string \<Rightarrow> error \<Rightarrow> unit action" where
  "publishFailed pkgName e =
     (case e of
        ExecFailed c stderr \<Rightarrow>
          if includesStr stderr ''previously published''
          then log (SkippingAlreadyPublished pkgName)
          else throw e
      | _ \<Rightarrow> throw e)"

text \<open>
  \<^verbatim>\<open>pkg.private\<close> (line 219): the property of an object; \<^verbatim>\<open>undefined\<close> on an array, a
  string, a number or a boolean; on \<^verbatim>\<open>null\<close> the read throws a \<^verbatim>\<open>TypeError\<close>.
\<close>

definition privateProp :: "json \<Rightarrow> json option" where
  "privateProp pkg = (case pkg of JObj kvs \<Rightarrow> map_of kvs ''private'' | _ \<Rightarrow> None)"

definition publishPackage :: "env \<Rightarrow> string \<Rightarrow> string \<Rightarrow> unit action" where
  "publishPackage env pkgName version st =
     (if pkgName \<in> set (skippedPackages st) then ok () st
      else andThen (readManifest (getPkgRoot pkgName))
             (\<lambda>pkg.
                if pkg = JNull then throw (NullManifest (getPkgRoot pkgName))
                else if truthyProp (privateProp pkg) then ok ()
                else andThen (step (Publishing pkgName))
                       (\<lambda>u. tryCatch
                              (andThen (runIfNotDry env (publishCommand env pkgName version))
                                 (\<lambda>u. log (Published pkgName version)))
                              (publishFailed pkgName)))
             st)"

text \<open>
  Lines 219-266 on their own: what \<^verbatim>\<open>publishPackage\<close> does with the manifest that line
  218 has read.
\<close>

definition publishRead :: "env \<Rightarrow> string \<Rightarrow> string \<Rightarrow> json \<Rightarrow> unit action" where
  "publishRead env pkgName version pkg =
     (if pkg = JNull then throw (NullManifest (getPkgRoot pkgName))
      else if truthyProp (privateProp pkg) then ok ()
      else andThen (step (Publishing pkgName))
             (\<lambda>u. tryCatch
                    (andThen (runIfNotDry env (publishCommand env pkgName version))
                       (\<lambda>u. log (Published pkgName version)))
                    (publishFailed pkgName)))"

text \<open>Lines 152-156.\<close>

definition publishStage :: "env \<Rightarrow> string \<Rightarrow> unit action" where
  "publishStage env version =
     andThen (step PublishingPackages)
       (\<lambda>u. forEach (\<lambda>pkg. publishPackage env pkg version) (packages env))"

text \<open>Lines 158-162.\<close>

definition gitTag :: "string \<Rightarrow> command" where
  "gitTag version = cmd ''git'' [''tag'', ''v'' @ version]"

definition gitPushTag :: "string \<Rightarrow> command" where
  "gitPushTag version = cmd ''git'' [''push'', ''origin'', ''refs/tags/v'' @ version]"

definition gitPush :: command where
  "gitPush = cmd ''git'' [''push'']"

definition pushStage :: "env \<Rightarrow> string \<Rightarrow> unit action" where
  "pushStage env version =
     andThen (step PushingToGitHub)
       (\<lambda>u. andThen (runIfNotDry env (gitTag version))
          (\<lambda>u. andThen (runIfNotDry env (gitPushTag version))
             (\<lambda>u. runIfNotDry env gitPush)))"

text \<open>Lines 164-177.\<close>

definition skippedSummary :: "unit action" where
  "skippedSummary st =
     (if skippedPackages st \<noteq> [] then log (SkippedSummary (skippedPackages st)) st
      else ok () st)"

definition summary :: "env \<Rightarrow> unit action" where
  "summary env =
     andThen (if isDryRun env then log DryRunFinished else ok ())
       (\<lambda>u. andThen skippedSummary (\<lambda>u. log EmptyLine))"

text \<open>Everything after the operator has confirmed, in the order of the source.\<close>

definition afterPropagation :: "env \<Rightarrow> string \<Rightarrow> unit action" where
  "afterPropagation env version =
     andThen (buildGate env)
       (\<lambda>u. andThen (commitStage env version)
          (\<lambda>u. andThen (publishStage env version)
             (\<lambda>u. andThen (pushStage env version)
                (\<lambda>u. summary env))))"

definition release :: "env \<Rightarrow> string \<Rightarrow> unit action" where
  "release env version =
     andThen (testGate env)
       (\<lambda>u. andThen (propagateStage env version)
          (\<lambda>u. afterPropagation env version))"

text \<open>
  \<^verbatim>\<open>semver.valid(targetVersion)\<close> (line 96) is truthy only for a string that the library
  accepts; from there on the target version is that string.
\<close>

definition validVersion :: "env \<Rightarrow> json \<Rightarrow> string option" where
  "validVersion env targetVersion =
     (case targetVersion of
        JStr s \<Rightarrow> if semver_valid env s then Some s else None
      | _ \<Rightarrow> None)"

definition main :: "env \<Rightarrow> unit action" where
  "main env =
     andThen (resolveTargetVersion env)
       (\<lambda>targetVersion.
          case validVersion env targetVersion of
            None \<Rightarrow> throw (InvalidTargetVersion targetVersion)
          | Some version \<Rightarrow>
              andThen (promptFor (ConfirmRelease version) (answer_yes env))
                (\<lambda>yes. if \<not> yes then ok () else release env version))"

text \<open>Lines 269-271: \<^verbatim>\<open>main().catch(err => { console.error(err) })\<close>.\<close>

definition program :: "env \<Rightarrow> unit action" where
  "program env = tryCatch (main env) (\<lambda>err. emit [ConsoleError err])"

text \<open>The state when \<^verbatim>\<open>main()\<close> is called: line 34 has set \<^verbatim>\<open>skippedPackages\<close> to \<^verbatim>\<open>[]\<close>.\<close>

definition initialState :: "files \<Rightarrow> state" where
  "initialState fs = \<lparr>files = fs, trace = [], skippedPackages = []\<rparr>"

section \<open>Observations used in the statements\<close>

text \<open>The value recorded for \<open>dep\<close> in the \<open>depType\<close> map of a manifest, if there is one.\<close>

definition manifestEntry :: "obj \<Rightarrow> string \<Rightarrow> string \<Rightarrow> json option" where
  "manifestEntry pkg depType dep =
     (case map_of pkg depType of Some (JObj deps) \<Rightarrow> map_of deps dep | _ \<Rightarrow> None)"

definition depEntry :: "files \<Rightarrow> dir \<Rightarrow> string \<Rightarrow> string \<Rightarrow> json option" where
  "depEntry fs d depType dep =
     (case fs d of Some (JObj pkg) \<Rightarrow> manifestEntry pkg depType dep | _ \<Rightarrow> None)"

text \<open>The events an action adds to the trace when it runs from \<open>st\<close>.\<close>

definition emitted :: "'a action \<Rightarrow> state \<Rightarrow> event list" where
  "emitted m st = drop (length (trace st)) (trace (fst (m st)))"

text \<open>The manifests written, and the manifests read, in the order of the events.\<close>

fun writtenDirs :: "event list \<Rightarrow> dir list" where
  "writtenDirs [] = []"
| "writtenDirs (WriteManifest d pkg # es) = d # writtenDirs es"
| "writtenDirs (e # es) = writtenDirs es"

fun readDirs :: "event list \<Rightarrow> dir list" where
  "readDirs [] = []"
| "readDirs (ReadManifest d # es) = d # readDirs es"
| "readDirs (e # es) = readDirs es"

text \<open>The manifests written, each with the value written.\<close>

fun writes :: "event list \<Rightarrow> (dir \<times> json) list" where
  "writes [] = []"
| "writes (WriteManifest d pkg # es) = (d, pkg) # writes es"
| "writes (e # es) = writes es"

text \<open>Some event reads the manifest of \<open>d\<close> after an earlier event has written it.\<close>

fun readAfterWrite :: "dir \<Rightarrow> event list \<Rightarrow> bool" where
  "readAfterWrite d [] = False"
| "readAfterWrite d (e # es) =
     ((case e of WriteManifest d' pkg \<Rightarrow> d' = d \<and> ReadManifest d \<in> set es | _ \<Rightarrow> False)
      \<or> readAfterWrite d es)"

text \<open>The test of line 144 on the outcome of \<^verbatim>\<open>git diff\<close>: it resolved, with output.\<close>

definition reportsChanges :: "cmd_result \<Rightarrow> bool" where
  "reportsChanges r = (case r of Resolved out \<Rightarrow> out \<noteq> [] | Rejected err \<Rightarrow> False)"

definition resolved :: "cmd_result \<Rightarrow> bool" where
  "resolved r = (case r of Resolved out \<Rightarrow> True | Rejected err \<Rightarrow> False)"

text \<open>
  What the outside world answers in a commit stage that starts in \<open>st\<close>: the outcome of
  the \<^verbatim>\<open>git diff\<close> of line 143 with the files it leaves, and the outcome of
  \<^verbatim>\<open>git add -A\<close> when line 146 executes it after that.
\<close>

definition diffResult :: "env \<Rightarrow> state \<Rightarrow> cmd_result \<times> files" where
  "diffResult env st = execa env (trace st) (files st) gitDiff"

definition addResult :: "env \<Rightarrow> state \<Rightarrow> cmd_result" where
  "addResult env st =
     fst (execa env (trace st @ [Exec gitDiff, Log CommittingChanges]) (snd (diffResult env st))
            (effective gitAdd))"

text \<open>The commands that \<^verbatim>\<open>main\<close> and \<^verbatim>\<open>publishPackage\<close> pass to \<^verbatim>\<open>runIfNotDry\<close>.\<close>

definition mutatingCommands :: "env \<Rightarrow> string \<Rightarrow> command list" where
  "mutatingCommands env version =
     [gitAdd, gitCommit version, gitTag version, gitPushTag version, gitPush]
     @ map (\<lambda>pkg. publishCommand env pkg version) (packages env)"

text \<open>
  The test commands of the commented-out lines 117-118: \<^verbatim>\<open>yarn test --bail\<close>, and
  \<^verbatim>\<open>jest\<close> from \<^verbatim>\<open>node_modules/.bin\<close>.
\<close>

definition yarnTest :: command where
  "yarnTest = cmd ''yarn'' [''test'', ''--bail'']"

definition isTestCommand :: "command \<Rightarrow> bool" where
  "isTestCommand c =
     ((bin c = ''yarn'' \<and> take 1 (argv c) = [JStr ''test'']) \<or> endsWith (bin c) ''/jest'')"

text \<open>What can be printed or asked before \<^verbatim>\<open>updateVersions\<close> is called (lines 68-125).\<close>

fun preEvent :: "event \<Rightarrow> bool" where
  "preEvent (Prompt k) = True"
| "preEvent (Log m) = (m = RunningTests \<or> m = NoUnitTests \<or> m = SkippedNote \<or> m = UpdatingCrossDeps)"
| "preEvent e = False"

text \<open>
  Reasoning about runs: \<open>emits I Q m\<close> says that \<open>m\<close>, started in a state with \<open>I\<close>,
  ends in a state with \<open>I\<close>, only adds events to the trace, and that the added events
  and the result satisfy \<open>Q\<close>; \<open>runs I P m\<close> asks \<open>P\<close> of each added event.
\<close>

definition stable :: "(state \<Rightarrow> bool) \<Rightarrow> bool" where
  "stable I = (\<forall>st fs tr. I (st\<lparr>files := fs, trace := tr\<rparr>) = I st)"

definition emits ::
  "(state \<Rightarrow> bool) \<Rightarrow> (event list \<Rightarrow> error + 'a \<Rightarrow> bool) \<Rightarrow> 'a action \<Rightarrow> bool" where
  "emits I Q m =
     (\<forall>st. I st \<longrightarrow>
        I (fst (m st)) \<and> (\<exists>evs. trace (fst (m st)) = trace st @ evs \<and> Q evs (snd (m st))))"

definition runs :: "(state \<Rightarrow> bool) \<Rightarrow> (event \<Rightarrow> bool) \<Rightarrow> 'a action \<Rightarrow> bool" where
  "runs I P m = emits I (\<lambda>evs r. list_all P evs) m"

text \<open>
  What \<^verbatim>\<open>updatePackage\<close> needs of a manifest file to get through: it can be read and
  parsed, and it is not \<^verbatim>\<open>null\<close>.
\<close>

definition usable :: "json option \<Rightarrow> bool" where
  "usable x = (x \<noteq> None \<and> x \<noteq> Some JNull)"

text \<open>The directories whose manifest \<^verbatim>\<open>updateVersions\<close> visits, in its order.\<close>

definition manifestDirs :: "env \<Rightarrow> dir list" where
  "manifestDirs env = RootDir # map getPkgRoot (packages env)"

text \<open>
  The reading of the propagation rule in the specification: a key names a package of the
  release set when it is the name of a listed package, or the scoped name
  \<^verbatim>\<open>@vue/<name>\<close> of one.
\<close>

definition namesReleasePackage :: "string list \<Rightarrow> string \<Rightarrow> bool" where
  "namesReleasePackage pkgs dep = (dep \<in> set pkgs \<or> dep \<in> set (map (\<lambda>p. ''@vue/'' @ p) pkgs))"

section \<open>A small repository for concrete runs\<close>

definition rootManifest :: obj where
  "rootManifest =
     [(''private'', JBool True), (''name'', JStr ''monorepo''), (''version'', JStr ''3.0.0'')]"

definition sharedManifest :: obj where
  "sharedManifest =
     [(''name'', JStr ''@vue/shared''),
      (''version'', JStr ''3.0.0''),
      (''dependencies'',
         JObj [(''vue'', JStr ''^2.6.0''),
               (''lodash'', JStr ''^4.17.0''),
               (''@vue/reactivity'', JStr ''3.0.0'')])]"

definition reactivityManifest :: obj where
  "reactivityManifest =
     [(''name'', JStr ''@vue/reactivity''),
      (''version'', JStr ''3.0.0''),
      (''peerDependencies'', JObj [(''@vue/shared'', JStr ''3.0.0'')])]"

definition demoFiles :: files where
  "demoFiles =
     (\<lambda>d. None)(RootDir \<mapsto> JObj rootManifest,
               PkgDir ''shared'' \<mapsto> JObj sharedManifest,
               PkgDir ''reactivity'' \<mapsto> JObj reactivityManifest)"

text \<open>
  A live run with the version given on the command line. \<^verbatim>\<open>git diff\<close> reports a
  change, a test command would fail, and every other command succeeds.
\<close>

definition demoEnv :: env where
  "demoEnv =
     \<lparr>arg_positional = JStr ''3.0.1'',
      arg_preid = JNull,
      arg_dry = JNull,
      arg_skipTests = JNull,
      arg_skipBuild = JNull,
      arg_tag = JNull,
      currentVersion = JStr ''3.0.0'',
      listing = [''.DS_Store'', ''global.d.ts'', ''reactivity'', ''shared''],
      semver_valid = (\<lambda>s. s = ''3.0.1''),
      semver_inc = (\<lambda>v i p. None),
      semver_prerelease = (\<lambda>v. None),
      execa =
        (\<lambda>tr fs c.
           if isTestCommand c then (Rejected ''1 test failed'', fs)
           else (Resolved (if argv c = [JStr ''diff''] then ''M package.json'' else []), fs)),
      answer_release = None,
      answer_version = None,
      answer_yes = Some True\<rparr>"

text \<open>What propagating version \<^verbatim>\<open>3.0.1\<close> reads, prints and writes in this repository.\<close>

definition demoPropagation :: "event list" where
  "demoPropagation =
     [ReadManifest RootDir,
      WriteManifest RootDir
        (JObj [(''private'', JBool True), (''name'', JStr ''monorepo''),
               (''version'', JStr ''3.0.1'')]),
      ReadManifest (PkgDir ''reactivity''),
      Log (DepUpdated (Some (JStr ''@vue/reactivity'')) ''peerDependencies'' ''@vue/shared''
             ''3.0.1''),
      WriteManifest (PkgDir ''reactivity'')
        (JObj [(''name'', JStr ''@vue/reactivity''), (''version'', JStr ''3.0.1''),
               (''peerDependencies'', JObj [(''@vue/shared'', JStr ''3.0.1'')])]),
      ReadManifest (PkgDir ''shared''),
      Log (DepUpdated (Some (JStr ''@vue/shared'')) ''dependencies'' ''vue'' ''3.0.1''),
      Log (DepUpdated (Some (JStr ''@vue/shared'')) ''dependencies'' ''@vue/reactivity''
             ''3.0.1''),
      WriteManifest (PkgDir ''shared'')
        (JObj [(''name'', JStr ''@vue/shared''), (''version'', JStr ''3.0.1''),
               (''dependencies'',
                  JObj [(''vue'', JStr ''3.0.1''), (''lodash'', JStr ''^4.17.0''),
                        (''@vue/reactivity'', JStr ''3.0.1'')])])]"

text \<open>The same run with \<^verbatim>\<open>--dry\<close>.\<close>

definition dryEnv :: env where
  "dryEnv = demoEnv\<lparr>arg_dry := JBool True\<rparr>"

text \<open>A run with \<^verbatim>\<open>--preid=beta\<close>; the current version \<^verbatim>\<open>3.0.0\<close> has no prerelease part.\<close>

definition preidEnv :: env where
  "preidEnv = demoEnv\<lparr>arg_preid := JStr ''beta''\<rparr>"

text \<open>A run with \<^verbatim>\<open>--preid 0\<close>, which \<^verbatim>\<open>minimist\<close> parses as the number 0.\<close>

definition preidZeroEnv :: env where
  "preidZeroEnv = demoEnv\<lparr>arg_preid := JNum 0\<rparr>"

text \<open>
  A run without \<^verbatim>\<open>--preid\<close> in a repository whose current version is
  \<^verbatim>\<open>3.0.0-beta.1\<close>.
\<close>

definition betaEnv :: env where
  "betaEnv =
     demoEnv\<lparr>currentVersion := JStr ''3.0.0-beta.1'',
             semver_prerelease :=
               (\<lambda>v. if v = JStr ''3.0.0-beta.1'' then Some [JStr ''beta'', JNum 1] else None)\<rparr>"

text \<open>A run with a target version that \<^verbatim>\<open>semver.valid\<close> rejects.\<close>

definition invalidEnv :: env where
  "invalidEnv = demoEnv\<lparr>arg_positional := JStr ''1.2''\<rparr>"

text \<open>A run in which the operator answers no to the confirmation.\<close>

definition declineEnv :: env where
  "declineEnv = demoEnv\<lparr>answer_yes := Some False\<rparr>"

text \<open>
  A run after a partial release: the registry already has \<^verbatim>\<open>@vue/reactivity\<close> at the
  target version, so \<^verbatim>\<open>yarn publish\<close> fails in \<^verbatim>\<open>packages/reactivity\<close>.
\<close>

definition republishEnv :: env where
  "republishEnv =
     demoEnv\<lparr>execa :=
       (\<lambda>tr fs c.
          if cwd c = Some (PkgDir ''reactivity'')
          then (Rejected ''error This version was previously published.'', fs)
          else (Resolved (if argv c = [JStr ''diff''] then ''M package.json'' else []), fs))\<rparr>"

text \<open>A run in a clean working tree: \<^verbatim>\<open>git diff\<close> prints nothing.\<close>

definition cleanEnv :: env where
  "cleanEnv = demoEnv\<lparr>execa := (\<lambda>tr fs c. (Resolved [], fs))\<rparr>"

text \<open>A run in which the registry cannot be reached from \<^verbatim>\<open>packages/reactivity\<close>.\<close>

definition offlineEnv :: env where
  "offlineEnv =
     demoEnv\<lparr>execa :=
       (\<lambda>tr fs c.
          if cwd c = Some (PkgDir ''reactivity'')
          then (Rejected ''error getaddrinfo ENOTFOUND registry.yarnpkg.com'', fs)
          else (Resolved (if argv c = [JStr ''diff''] then ''M package.json'' else []), fs))\<rparr>"

section \<open>Properties of version propagation\<close>

lemma demo_packages: "packages demoEnv = [''reactivity'', ''shared'']"
  by (simp add: packages_def demoEnv_def startsWith_def endsWith_def)

lemma map_of_setProp: "map_of (setProp k v al) = (map_of al)(k \<mapsto> v)"
  by (induction al) (auto simp: fun_eq_iff)

lemma setProp_triv: "map_of al k = Some v \<Longrightarrow> setProp k v al = al"
  by (induction al) auto

lemma keys_setProp: "k \<in> fst ` set al \<Longrightarrow> map fst (setProp k v al) = map fst al"
  by (induction al) auto

lemma fold_updateDep_lookup:
  "map_of (fst (fold (updateDep pkgs n t v) ks (deps, logs))) k =
     (if k \<in> set ks \<and> depMatches pkgs k then Some (JStr v) else map_of deps k)"
proof (induction ks arbitrary: deps logs)
  case Nil
  then show ?case by simp
next
  case (Cons a ks)
  show ?case
  proof (cases "depMatches pkgs a")
    case True
    then show ?thesis
      using Cons.IH [of "setProp a (JStr v) deps" "logs @ [DepUpdated n t a v]"]
      by (auto simp: updateDep_def map_of_setProp)
  next
    case False
    then show ?thesis
      using Cons.IH [of deps logs] by (auto simp: updateDep_def)
  qed
qed

lemma fold_updateDep_keys:
  "set ks \<subseteq> fst ` set deps \<Longrightarrow>
   map fst (fst (fold (updateDep pkgs n t v) ks (deps, logs))) = map fst deps"
proof (induction ks arbitrary: deps logs)
  case Nil
  then show ?case by simp
next
  case (Cons a ks)
  have a: "a \<in> fst ` set deps" using Cons.prems by simp
  show ?case
  proof (cases "depMatches pkgs a")
    case True
    have "set ks \<subseteq> fst ` set (setProp a (JStr v) deps)"
      using Cons.prems keys_setProp [OF a, of "JStr v"]
      by (metis list.set_map set_subset_Cons subset_trans)
    then show ?thesis
      using True Cons.IH [of "setProp a (JStr v) deps" "logs @ [DepUpdated n t a v]"]
        keys_setProp [OF a, of "JStr v"]
      by (simp add: updateDep_def)
  next
    case False
    then show ?thesis
      using Cons.IH [of deps logs] Cons.prems by (simp add: updateDep_def)
  qed
qed

lemma fold_updateDep_fixed:
  "\<forall>k\<in>set ks. depMatches pkgs k \<longrightarrow> map_of deps k = Some (JStr v) \<Longrightarrow>
   fst (fold (updateDep pkgs n t v) ks (deps, logs)) = deps"
proof (induction ks arbitrary: logs)
  case Nil
  then show ?case by simp
next
  case (Cons a ks)
  then show ?case
    by (cases "depMatches pkgs a") (simp_all add: updateDep_def setProp_triv)
qed

lemma updateDeps_other:
  "t' \<noteq> t \<Longrightarrow> map_of (fst (updateDeps pkgs X t v)) t' = map_of X t'"
  by (auto simp: updateDeps_def map_of_setProp Let_def split: option.splits json.splits)

lemma updateDeps_fixed:
  assumes "\<And>deps. map_of X t = Some (JObj deps) \<Longrightarrow>
             \<forall>k\<in>fst ` set deps. depMatches pkgs k \<longrightarrow> map_of deps k = Some (JStr v)"
  shows "fst (updateDeps pkgs X t v) = X"
proof (cases "map_of X t")
  case None
  then show ?thesis by (simp add: updateDeps_def)
next
  case (Some d)
  show ?thesis
  proof (cases d)
    case (JObj deps)
    have "fst (fold (updateDep pkgs (map_of X ''name'') t v) (map fst deps) (deps, [])) = deps"
      using assms [of deps] Some JObj by (intro fold_updateDep_fixed) simp
    then show ?thesis
      using Some JObj by (simp add: updateDeps_def Let_def setProp_triv)
  qed (use Some in \<open>simp_all add: updateDeps_def\<close>)
qed

lemma updateDeps_lookup:
  "map_of (fst (updateDeps pkgs X t v)) t =
     (case map_of X t of
        Some (JObj deps) \<Rightarrow>
          Some (JObj (fst (fold (updateDep pkgs (map_of X ''name'') t v) (map fst deps) (deps, []))))
      | other \<Rightarrow> other)"
  by (auto simp: updateDeps_def map_of_setProp Let_def split: option.splits json.splits)

lemma updateDeps_settles:
  assumes "map_of (fst (updateDeps pkgs X t v)) t = Some (JObj deps')"
  shows "\<forall>k\<in>fst ` set deps'. depMatches pkgs k \<longrightarrow> map_of deps' k = Some (JStr v)"
proof -
  from assms obtain deps where
    eq: "deps' = fst (fold (updateDep pkgs (map_of X ''name'') t v) (map fst deps) (deps, []))"
    by (auto simp: updateDeps_lookup split: option.splits json.splits)
  have "map fst deps' = map fst deps"
    unfolding eq by (rule fold_updateDep_keys) simp
  then have "fst ` set deps' = fst ` set deps"
    by (metis list.set_map)
  then show ?thesis
    by (auto simp: eq fold_updateDep_lookup)
qed

lemma updateDeps_entry:
  "manifestEntry (fst (updateDeps pkgs X t v)) t dep =
     map_option (\<lambda>x. if depMatches pkgs dep then JStr v else x) (manifestEntry X t dep)"
proof (cases "map_of X t")
  case None
  then show ?thesis by (simp add: manifestEntry_def updateDeps_lookup)
next
  case (Some d)
  show ?thesis
  proof (cases d)
    case (JObj deps)
    have "(dep \<in> fst ` set deps) = (map_of deps dep \<noteq> None)"
      by (simp add: map_of_eq_None_iff)
    then show ?thesis
      using Some JObj
      by (cases "map_of deps dep")
        (simp_all add: manifestEntry_def updateDeps_lookup fold_updateDep_lookup)
  qed (use Some in \<open>simp_all add: manifestEntry_def updateDeps_lookup\<close>)
qed

lemma updateDeps_entry_other:
  "t' \<noteq> t \<Longrightarrow> manifestEntry (fst (updateDeps pkgs X t v)) t' dep = manifestEntry X t' dep"
  by (simp add: manifestEntry_def updateDeps_other)

lemma updatedManifest_entry:
  assumes "t = ''dependencies'' \<or> t = ''peerDependencies''"
  shows "manifestEntry (fst (updatedManifest pkgs v pkg)) t dep =
           map_option (\<lambda>x. if depMatches pkgs dep then JStr v else x) (manifestEntry pkg t dep)"
proof -
  have ver: "manifestEntry (setProp ''version'' (JStr v) pkg) t dep = manifestEntry pkg t dep"
    using assms by (auto simp: manifestEntry_def map_of_setProp)
  show ?thesis
    using assms ver
    by (auto simp: updatedManifest_def Let_def updateDeps_entry updateDeps_entry_other)
qed

lemma updatedManifest_version:
  "map_of (fst (updatedManifest pkgs v pkg)) ''version'' = Some (JStr v)"
  by (simp add: updatedManifest_def Let_def updateDeps_other map_of_setProp)

lemma updatedManifest_idem:
  "fst (updatedManifest pkgs v (fst (updatedManifest pkgs v pkg))) = fst (updatedManifest pkgs v pkg)"
proof -
  define S where "S = setProp ''version'' (JStr v) pkg"
  define Q where "Q = fst (updateDeps pkgs S ''dependencies'' v)"
  define P where "P = fst (updateDeps pkgs Q ''peerDependencies'' v)"
  have P: "fst (updatedManifest pkgs v pkg) = P"
    by (simp add: updatedManifest_def Let_def S_def Q_def P_def)
  have "map_of P ''version'' = Some (JStr v)"
    using updatedManifest_version [of pkgs v pkg] by (simp add: P)
  then have 1: "setProp ''version'' (JStr v) P = P"
    by (rule setProp_triv)
  have "map_of P ''dependencies'' = map_of Q ''dependencies''"
    by (simp add: P_def updateDeps_other)
  then have 2: "fst (updateDeps pkgs P ''dependencies'' v) = P"
    using updateDeps_settles [of pkgs S "''dependencies''" v]
    by (intro updateDeps_fixed) (simp add: Q_def)
  have 3: "fst (updateDeps pkgs P ''peerDependencies'' v) = P"
    using updateDeps_settles [of pkgs Q "''peerDependencies''" v]
    by (intro updateDeps_fixed) (simp add: P_def)
  show ?thesis
    unfolding P by (simp add: updatedManifest_def Let_def 1 2 3)
qed

lemma forEach_map: "forEach (\<lambda>p. f (g p)) ps = forEach f (map g ps)"
  by (induction ps) simp_all

lemma updateVersions_dirs:
  "updateVersions env v = forEach (\<lambda>d. updatePackage env d v) (manifestDirs env)"
  using forEach_map [of "\<lambda>d. updatePackage env d v" getPkgRoot "packages env"]
  by (simp add: updateVersions_def manifestDirs_def)

lemma updatedDocument_idem:
  "fst (updatedDocument pkgs v (fst (updatedDocument pkgs v doc))) = fst (updatedDocument pkgs v doc)"
  by (cases doc) (simp_all add: updatedDocument_def updatedManifest_idem)

lemma updatedDocument_null: "(fst (updatedDocument pkgs v doc) = JNull) = (doc = JNull)"
  by (cases doc) (simp_all add: updatedDocument_def)

lemma usable_updated:
  "usable (Some doc) \<Longrightarrow> usable (Some (fst (updatedDocument pkgs v doc)))"
  by (simp add: usable_def updatedDocument_null)

lemma updatePackage_files:
  "files (fst (updatePackage env d v st)) =
     (if usable (files st d)
      then (files st)(d := map_option (\<lambda>doc. fst (updatedDocument (packages env) v doc)) (files st d))
      else files st)"
  by (auto simp: updatePackage_def andThen_def readManifest_def emit_def writeManifest_def
      throw_def usable_def split: option.splits)

lemma updatePackage_result:
  "snd (updatePackage env d v st) =
     (case files st d of
        None \<Rightarrow> Inl (ReadFailed d)
      | Some doc \<Rightarrow> if doc = JNull then Inl (NullManifest d) else Inr ())"
  by (simp add: updatePackage_def andThen_def readManifest_def emit_def writeManifest_def
      throw_def split: option.splits)

lemma updatePackage_ok: "(snd (updatePackage env d v st) = Inr ()) = usable (files st d)"
  by (simp add: updatePackage_result usable_def split: option.splits)

lemma forEach_updatePackage_files:
  "files (fst (forEach (\<lambda>d. updatePackage env d v) ds st)) q =
     (if q \<in> set (takeWhile (\<lambda>d. usable (files st d)) ds)
      then map_option (\<lambda>doc. fst (updatedDocument (packages env) v doc)) (files st q)
      else files st q)"
proof (induction ds arbitrary: st)
  case Nil
  then show ?case by (simp add: ok_def)
next
  case (Cons d ds)
  obtain st1 r where run: "updatePackage env d v st = (st1, r)"
    by (cases "updatePackage env d v st")
  show ?case
  proof (cases "usable (files st d)")
    case False
    then have "r \<noteq> Inr ()"
      using updatePackage_ok [of env d v st] run by simp
    moreover have "files st1 = files st"
      using updatePackage_files [of env d v st] False run by simp
    ultimately show ?thesis
      using False by (cases r) (simp_all add: andThen_def run)
  next
    case True
    then obtain doc where doc: "files st d = Some doc"
      by (auto simp: usable_def)
    have r: "r = Inr ()"
      using updatePackage_ok [of env d v st] True run by simp
    have f1: "files st1 = (files st)(d \<mapsto> fst (updatedDocument (packages env) v doc))"
      using updatePackage_files [of env d v st] True run by (simp add: doc)
    have same: "(\<lambda>d'. usable (files st1 d')) = (\<lambda>d'. usable (files st d'))"
      using True usable_updated [of doc "packages env" v] by (auto simp: f1 fun_eq_iff doc)
    have IH: "files (fst (forEach (\<lambda>d. updatePackage env d v) ds st1)) q =
        (if q \<in> set (takeWhile (\<lambda>d. usable (files st d)) ds)
         then map_option (\<lambda>doc. fst (updatedDocument (packages env) v doc)) (files st1 q)
         else files st1 q)"
      using Cons.IH [of st1] unfolding same .
    have step: "forEach (\<lambda>d. updatePackage env d v) (d # ds) st =
        forEach (\<lambda>d. updatePackage env d v) ds st1"
      by (simp add: andThen_def run r)
    have tw: "takeWhile (\<lambda>d. usable (files st d)) (d # ds) =
        d # takeWhile (\<lambda>d. usable (files st d)) ds"
      using True by simp
    show ?thesis
    proof (cases "q = d")
      case True
      then show ?thesis
        unfolding step IH tw using doc by (simp add: f1 updatedDocument_idem)
    next
      case False
      then show ?thesis
        unfolding step IH tw by (simp add: f1)
    qed
  qed
qed

lemma forEach_updatePackage_result:
  "(snd (forEach (\<lambda>d. updatePackage env d v) ds st) = Inr ()) = (\<forall>d\<in>set ds. usable (files st d))"
proof (induction ds arbitrary: st)
  case Nil
  then show ?case by (simp add: ok_def)
next
  case (Cons d ds)
  obtain st1 r where run: "updatePackage env d v st = (st1, r)"
    by (cases "updatePackage env d v st")
  show ?case
  proof (cases "usable (files st d)")
    case False
    then have "r \<noteq> Inr ()"
      using updatePackage_ok [of env d v st] run by simp
    then show ?thesis
      using False by (cases r) (simp_all add: andThen_def run)
  next
    case True
    then obtain doc where doc: "files st d = Some doc"
      by (auto simp: usable_def)
    have r: "r = Inr ()"
      using updatePackage_ok [of env d v st] True run by simp
    have f1: "files st1 = (files st)(d \<mapsto> fst (updatedDocument (packages env) v doc))"
      using updatePackage_files [of env d v st] True run by (simp add: doc)
    have "(\<forall>d'\<in>set ds. usable (files st1 d')) = (\<forall>d'\<in>set ds. usable (files st d'))"
      using True usable_updated [of doc "packages env" v] by (auto simp: f1 doc)
    then show ?thesis
      using True Cons.IH [of st1] by (simp add: andThen_def run r)
  qed
qed

text \<open>
  C4: running \<^verbatim>\<open>updateVersions(version)\<close> a second time leaves every manifest file as
  the first run wrote it, whatever the files held before and also when the run stops at
  a manifest that it cannot read or update.
\<close>

theorem updateVersions_idempotent:
  "files (fst (updateVersions env v (fst (updateVersions env v st)))) =
   files (fst (updateVersions env v st))"
proof
  fix q
  let ?st1 = "fst (updateVersions env v st)"
  let ?upd = "map_option (\<lambda>doc. fst (updatedDocument (packages env) v doc))"
  have f1: "files ?st1 d =
      (if d \<in> set (takeWhile (\<lambda>d. usable (files st d)) (manifestDirs env))
       then ?upd (files st d) else files st d)" for d
    unfolding updateVersions_dirs by (rule forEach_updatePackage_files)
  have "usable (files ?st1 d) = usable (files st d)" for d
    unfolding f1 by (cases "files st d") (auto simp: usable_def updatedDocument_null)
  then have same: "(\<lambda>d. usable (files ?st1 d)) = (\<lambda>d. usable (files st d))"
    by (simp add: fun_eq_iff)
  have "files (fst (updateVersions env v ?st1)) q =
      (if q \<in> set (takeWhile (\<lambda>d. usable (files ?st1 d)) (manifestDirs env))
       then ?upd (files ?st1 q) else files ?st1 q)"
    unfolding updateVersions_dirs by (rule forEach_updatePackage_files)
  then have "files (fst (updateVersions env v ?st1)) q =
      (if q \<in> set (takeWhile (\<lambda>d. usable (files st d)) (manifestDirs env))
       then ?upd (files ?st1 q) else files ?st1 q)"
    by (simp only: same)
  then show "files (fst (updateVersions env v ?st1)) q = files ?st1 q"
    by (cases "files st q") (simp_all add: f1 updatedDocument_idem)
qed

lemma updateVersions_result:
  "(snd (updateVersions env v st) = Inr ()) = (\<forall>d\<in>set (manifestDirs env). usable (files st d))"
  by (simp only: updateVersions_dirs forEach_updatePackage_result)

lemma updateVersions_files:
  assumes "snd (updateVersions env v st) = Inr ()" and "d \<in> set (manifestDirs env)"
  shows "files (fst (updateVersions env v st)) d =
           map_option (\<lambda>doc. fst (updatedDocument (packages env) v doc)) (files st d)"
proof -
  have "\<forall>d\<in>set (manifestDirs env). usable (files st d)"
    using assms(1) by (simp only: updateVersions_result)
  then have tw: "takeWhile (\<lambda>d. usable (files st d)) (manifestDirs env) = manifestDirs env"
    by (simp only: takeWhile_eq_all_conv)
  show ?thesis
    unfolding updateVersions_dirs forEach_updatePackage_files tw using assms(2) by simp
qed

text \<open>
  C1, as amended: when \<^verbatim>\<open>updateVersions(version)\<close> completes, then in the
  \<^verbatim>\<open>dependencies\<close> and \<^verbatim>\<open>peerDependencies\<close> of the root manifest and of every package
  manifest, an entry whose key passes the test of lines 201-202 (the key is \<^verbatim>\<open>vue\<close>, or
  it starts with \<^verbatim>\<open>@vue\<close> and, without a leading \<^verbatim>\<open>@vue/\<close>, is a listed package) records
  exactly \<open>version\<close>, every other entry keeps its value, and no entry appears or
  disappears.
\<close>

theorem updateVersions_dep_entries:
  assumes "snd (updateVersions env version st) = Inr ()"
    and "d \<in> set (manifestDirs env)"
    and "depType = ''dependencies'' \<or> depType = ''peerDependencies''"
  shows "depEntry (files (fst (updateVersions env version st))) d depType dep =
           map_option (\<lambda>x. if depMatches (packages env) dep then JStr version else x)
             (depEntry (files st) d depType dep)"
proof (cases "files st d")
  case None
  then show ?thesis
    using updateVersions_files [OF assms(1,2)] by (simp add: depEntry_def)
next
  case (Some doc)
  then show ?thesis
    using updateVersions_files [OF assms(1,2)] updatedManifest_entry [OF assms(3)]
    by (cases doc) (simp_all add: depEntry_def updatedDocument_def)
qed

lemma demo_dirs: "manifestDirs demoEnv = [RootDir, PkgDir ''reactivity'', PkgDir ''shared'']"
  by (simp add: manifestDirs_def demo_packages getPkgRoot_def)

lemma demo_propagates: "snd (updateVersions demoEnv v (initialState demoFiles)) = Inr ()"
  by (simp add: updateVersions_result demo_dirs initialState_def demoFiles_def usable_def)

theorem updateVersions_dep_entries_witness:
  "snd (updateVersions demoEnv ''3.0.1'' (initialState demoFiles)) = Inr ()
   \<and> PkgDir ''shared'' \<in> set (manifestDirs demoEnv)
   \<and> depEntry (files (fst (updateVersions demoEnv ''3.0.1'' (initialState demoFiles))))
        (PkgDir ''shared'') ''dependencies'' ''@vue/reactivity'' = Some (JStr ''3.0.1'')
   \<and> depEntry (files (fst (updateVersions demoEnv ''3.0.1'' (initialState demoFiles))))
        (PkgDir ''shared'') ''dependencies'' ''lodash'' = Some (JStr ''^4.17.0'')"
proof -
  have h1: "snd (updateVersions demoEnv ''3.0.1'' (initialState demoFiles)) = Inr ()"
    by (rule demo_propagates)
  have h2: "PkgDir ''shared'' \<in> set (manifestDirs demoEnv)"
    by (simp add: demo_dirs)
  have h3: "''dependencies'' = ''dependencies'' \<or> ''dependencies'' = ''peerDependencies''"
    by simp
  show ?thesis
    using h1 h2
      updateVersions_dep_entries [OF h1 h2 h3, of "''@vue/reactivity''"]
      updateVersions_dep_entries [OF h1 h2 h3, of "''lodash''"]
    by (simp add: depEntry_def manifestEntry_def initialState_def demoFiles_def
        sharedManifest_def depMatches_def demo_packages startsWith_def stripVueScope_def)
qed

text \<open>
  C1 as stated fails: with the release set \<^verbatim>\<open>reactivity\<close>, \<^verbatim>\<open>shared\<close>, the key \<^verbatim>\<open>vue\<close>
  names no package of the set, yet its entry \<^verbatim>\<open>^2.6.0\<close> is overwritten.
\<close>

theorem external_vue_entry_counterexample:
  "\<not> namesReleasePackage (packages demoEnv) ''vue''
   \<and> depEntry demoFiles (PkgDir ''shared'') ''dependencies'' ''vue'' = Some (JStr ''^2.6.0'')
   \<and> depEntry (files (fst (updateVersions demoEnv ''3.0.1'' (initialState demoFiles))))
        (PkgDir ''shared'') ''dependencies'' ''vue'' = Some (JStr ''3.0.1'')"
proof -
  have h1: "snd (updateVersions demoEnv ''3.0.1'' (initialState demoFiles)) = Inr ()"
    by (rule demo_propagates)
  have h2: "PkgDir ''shared'' \<in> set (manifestDirs demoEnv)"
    by (simp add: demo_dirs)
  have "files (fst (updateVersions demoEnv ''3.0.1'' (initialState demoFiles))) (PkgDir ''shared'')
        = Some (JObj (fst (updatedManifest (packages demoEnv) ''3.0.1'' sharedManifest)))"
    using updateVersions_files [OF h1 h2]
    by (simp add: initialState_def demoFiles_def updatedDocument_def)
  then show ?thesis
    by (simp add: namesReleasePackage_def demo_packages depEntry_def manifestEntry_def
        demoFiles_def sharedManifest_def updatedManifest_def updateDeps_def updateDep_def
        depMatches_def startsWith_def stripVueScope_def Let_def)
qed

theorem updateVersions_idempotent_witness:
  "files (fst (updateVersions demoEnv ''3.0.1''
            (fst (updateVersions demoEnv ''3.0.1'' (initialState demoFiles))))) (PkgDir ''reactivity'')
   = Some (JObj [(''name'', JStr ''@vue/reactivity''),
                 (''version'', JStr ''3.0.1''),
                 (''peerDependencies'', JObj [(''@vue/shared'', JStr ''3.0.1'')])])"
proof -
  have h1: "snd (updateVersions demoEnv ''3.0.1'' (initialState demoFiles)) = Inr ()"
    by (rule demo_propagates)
  have h2: "PkgDir ''reactivity'' \<in> set (manifestDirs demoEnv)"
    by (simp add: demo_dirs)
  have "files (fst (updateVersions demoEnv ''3.0.1'' (initialState demoFiles))) (PkgDir ''reactivity'')
        = Some (JObj (fst (updatedManifest (packages demoEnv) ''3.0.1'' reactivityManifest)))"
    using updateVersions_files [OF h1 h2]
    by (simp add: initialState_def demoFiles_def updatedDocument_def)
  then show ?thesis
    using updateVersions_idempotent [of demoEnv "''3.0.1''" "initialState demoFiles"]
    by (simp add: demo_packages reactivityManifest_def updatedManifest_def updateDeps_def
        updateDep_def depMatches_def startsWith_def stripVueScope_def Let_def)
qed

section \<open>Reasoning about the events of a run\<close>

lemma stable_True: "stable (\<lambda>st. True)"
  by (simp add: stable_def)

lemma stable_trace: "stable I \<Longrightarrow> I (st\<lparr>trace := tr\<rparr>) = I st"
proof -
  assume "stable I"
  then have "I (st\<lparr>files := files st, trace := tr\<rparr>) = I st"
    unfolding stable_def by blast
  then show ?thesis by simp
qed

lemma stable_files_trace: "stable I \<Longrightarrow> I (st\<lparr>files := fs, trace := tr\<rparr>) = I st"
  unfolding stable_def by blast

lemma emits_ok: "Q [] (Inr x) \<Longrightarrow> emits I Q (ok x)"
  by (simp add: emits_def ok_def)

lemma emits_throw: "Q [] (Inl e) \<Longrightarrow> emits I Q (throw e)"
  by (simp add: emits_def throw_def)

lemma emits_emit: "stable I \<Longrightarrow> Q evs (Inr ()) \<Longrightarrow> emits I Q (emit evs)"
  by (simp add: emits_def emit_def stable_trace)

lemma emits_weaken: "emits I Q m \<Longrightarrow> (\<And>evs r. Q evs r \<Longrightarrow> Q' evs r) \<Longrightarrow> emits I Q' m"
  unfolding emits_def by blast

lemma emits_andThen:
  assumes m: "emits I Q1 m"
    and f: "\<And>x. emits I (Q2 x) (f x)"
    and fail: "\<And>a e. Q1 a (Inl e) \<Longrightarrow> Q a (Inl e)"
    and app: "\<And>a x b r. Q1 a (Inr x) \<Longrightarrow> Q2 x b r \<Longrightarrow> Q (a @ b) r"
  shows "emits I Q (andThen m f)"
  unfolding emits_def
proof (intro allI impI)
  fix st assume I: "I st"
  obtain st1 r1 where run: "m st = (st1, r1)" by (cases "m st")
  from m I run obtain a where a: "I st1" "trace st1 = trace st @ a" "Q1 a r1"
    unfolding emits_def by fastforce
  show "I (fst (andThen m f st)) \<and>
        (\<exists>evs. trace (fst (andThen m f st)) = trace st @ evs \<and> Q evs (snd (andThen m f st)))"
  proof (cases r1)
    case (Inl e)
    then show ?thesis using a fail run by (auto simp: andThen_def)
  next
    case (Inr x)
    from f [of x] a(1) obtain b where
      b: "I (fst (f x st1))" "trace (fst (f x st1)) = trace st1 @ b" "Q2 x b (snd (f x st1))"
      unfolding emits_def by blast
    have "Q (a @ b) (snd (f x st1))" using app a(3) b(3) Inr by simp
    then show ?thesis using Inr run a b by (auto simp: andThen_def)
  qed
qed

lemma emits_tryCatch:
  assumes m: "emits I Q1 m"
    and h: "\<And>e. emits I (Q2 e) (h e)"
    and good: "\<And>a x. Q1 a (Inr x) \<Longrightarrow> Q a (Inr x)"
    and app: "\<And>a e b r. Q1 a (Inl e) \<Longrightarrow> Q2 e b r \<Longrightarrow> Q (a @ b) r"
  shows "emits I Q (tryCatch m h)"
  unfolding emits_def
proof (intro allI impI)
  fix st assume I: "I st"
  obtain st1 r1 where run: "m st = (st1, r1)" by (cases "m st")
  from m I run obtain a where a: "I st1" "trace st1 = trace st @ a" "Q1 a r1"
    unfolding emits_def by fastforce
  show "I (fst (tryCatch m h st)) \<and>
        (\<exists>evs. trace (fst (tryCatch m h st)) = trace st @ evs \<and> Q evs (snd (tryCatch m h st)))"
  proof (cases r1)
    case (Inr x)
    then show ?thesis using a good run by (auto simp: tryCatch_def)
  next
    case (Inl e)
    from h [of e] a(1) obtain b where
      b: "I (fst (h e st1))" "trace (fst (h e st1)) = trace st1 @ b" "Q2 e b (snd (h e st1))"
      unfolding emits_def by blast
    have "Q (a @ b) (snd (h e st1))" using app a(3) b(3) Inl by simp
    then show ?thesis using Inl run a b by (auto simp: tryCatch_def)
  qed
qed

lemma runs_ok: "runs I P (ok x)"
  by (simp add: runs_def emits_ok)

lemma runs_throw: "runs I P (throw e)"
  by (simp add: runs_def emits_throw)

lemma runs_emit: "stable I \<Longrightarrow> list_all P evs \<Longrightarrow> runs I P (emit evs)"
  by (simp add: runs_def emits_emit)

lemma runs_log: "stable I \<Longrightarrow> P (Log m) \<Longrightarrow> runs I P (log m)"
  by (simp add: log_def runs_emit)

lemma runs_step: "stable I \<Longrightarrow> P (Log m) \<Longrightarrow> runs I P (step m)"
  by (simp add: step_def runs_emit)

lemma runs_andThen:
  "runs I P m \<Longrightarrow> (\<And>x. runs I P (f x)) \<Longrightarrow> runs I P (andThen m f)"
  unfolding runs_def
  by (rule emits_andThen [where ?Q1.0 = "\<lambda>evs r. list_all P evs"
        and ?Q2.0 = "\<lambda>x evs r. list_all P evs"]) simp_all

lemma runs_tryCatch:
  "runs I P m \<Longrightarrow> (\<And>e. runs I P (h e)) \<Longrightarrow> runs I P (tryCatch m h)"
  unfolding runs_def
  by (rule emits_tryCatch [where ?Q1.0 = "\<lambda>evs r. list_all P evs"
        and ?Q2.0 = "\<lambda>x evs r. list_all P evs"]) simp_all

lemma runs_forEach:
  "(\<And>x. x \<in> set xs \<Longrightarrow> runs I P (f x)) \<Longrightarrow> runs I P (forEach f xs)"
  by (induction xs) (simp_all add: runs_ok runs_andThen)

lemma runs_run: "stable I \<Longrightarrow> P (Exec (effective c)) \<Longrightarrow> runs I P (run env c)"
  by (auto simp: runs_def emits_def run_def stable_files_trace split: prod.splits cmd_result.splits)

lemma runs_dryRun: "stable I \<Longrightarrow> P (DryLog c) \<Longrightarrow> runs I P (dryRun c)"
  by (simp add: dryRun_def runs_emit)

lemma runs_runIfNotDry:
  "stable I \<Longrightarrow> (\<not> isDryRun env \<Longrightarrow> P (Exec (effective c))) \<Longrightarrow> (isDryRun env \<Longrightarrow> P (DryLog c))
   \<Longrightarrow> runs I P (runIfNotDry env c)"
  by (simp add: runIfNotDry_def runs_dryRun runs_andThen runs_run runs_ok)

lemma runs_readManifest: "stable I \<Longrightarrow> P (ReadManifest d) \<Longrightarrow> runs I P (readManifest d)"
  by (auto simp: runs_def emits_def readManifest_def stable_trace split: option.splits)

lemma runs_writeManifest:
  "stable I \<Longrightarrow> P (WriteManifest d pkg) \<Longrightarrow> runs I P (writeManifest d pkg)"
  by (auto simp: runs_def emits_def writeManifest_def stable_files_trace)

lemma runs_promptFor: "stable I \<Longrightarrow> P (Prompt k) \<Longrightarrow> runs I P (promptFor k ans)"
  unfolding promptFor_def
  by (intro runs_andThen runs_emit) (auto simp: runs_ok runs_throw split: option.splits)

lemma runs_state_if:
  "runs I P a \<Longrightarrow> runs I P b \<Longrightarrow> runs I P (\<lambda>st. if c st then a st else b st)"
  unfolding runs_def emits_def by simp

lemma runsD:
  assumes "runs I P m" and "I st"
  shows "I (fst (m st))" and "\<exists>evs. trace (fst (m st)) = trace st @ evs \<and> list_all P evs"
  using assms unfolding runs_def emits_def by blast+

lemma runs_if: "(c \<Longrightarrow> runs I P a) \<Longrightarrow> (\<not> c \<Longrightarrow> runs I P b) \<Longrightarrow> runs I P (if c then a else b)"
  by simp

lemma runs_resolveTargetVersion:
  assumes "stable I" and "\<And>k. P (Prompt k)"
  shows "runs I P (resolveTargetVersion env)"
proof -
  have "runs I P (askTargetVersion env)"
    unfolding askTargetVersion_def
    by (intro runs_andThen runs_if runs_promptFor assms)
      (simp_all add: runs_ok runs_throw split: option.splits)
  then show ?thesis
    by (simp add: resolveTargetVersion_def runs_ok split: option.splits)
qed

lemma runs_testGate:
  assumes "stable I" and "\<forall>m. (\<forall>ps. m \<noteq> SkippedSummary ps) \<longrightarrow> P (Log m)"
  shows "runs I P (testGate env)"
  unfolding testGate_def
  by (intro runs_andThen runs_if runs_step runs_log assms(1)) (simp_all add: assms(2))

lemma runs_updatePackage:
  assumes "stable I" and "\<And>n t dep. P (Log (DepUpdated n t dep v))"
    and "P (ReadManifest d)" and "\<And>pkg. P (WriteManifest d pkg)"
  shows "runs I P (updatePackage env d v)"
proof -
  have logs: "list_all P (map Log (snd (updateDeps pkgs pkg t v)))" for pkgs pkg t
  proof -
    have "list_all P (map Log (snd (fold (updateDep pkgs n t v) ks (deps, ms))))"
      if "list_all P (map Log ms)" for n ks deps ms
      using that
      by (induction ks arbitrary: deps ms) (simp_all add: updateDep_def assms(2))
    then show ?thesis
      by (auto simp: updateDeps_def Let_def split: option.splits json.splits)
  qed
  have "list_all P (map Log (snd (updatedManifest (packages env) v pkg)))" for pkg
    using logs by (simp add: updatedManifest_def Let_def)
  then have "list_all P (map Log (snd (updatedDocument (packages env) v doc)))" for doc
    by (cases doc) (simp_all add: updatedDocument_def)
  then show ?thesis
    unfolding updatePackage_def
    by (intro runs_andThen runs_if runs_throw runs_readManifest runs_emit runs_writeManifest
        assms)
qed

lemma runs_updateVersions:
  assumes "stable I" and "\<And>n t dep. P (Log (DepUpdated n t dep v))"
    and "\<And>d. P (ReadManifest d)" and "\<And>d pkg. P (WriteManifest d pkg)"
  shows "runs I P (updateVersions env v)"
  unfolding updateVersions_dirs
  by (intro runs_forEach runs_updatePackage assms)

lemma runs_propagateStage:
  assumes "stable I" and "\<forall>m. (\<forall>ps. m \<noteq> SkippedSummary ps) \<longrightarrow> P (Log m)"
    and "\<And>d. P (ReadManifest d)" and "\<And>d pkg. P (WriteManifest d pkg)"
  shows "runs I P (propagateStage env v)"
  unfolding propagateStage_def
  by (intro runs_andThen runs_step runs_updateVersions assms(1,3,4)) (simp_all add: assms(2))

lemma runs_buildGate:
  assumes "stable I" and "\<forall>m. (\<forall>ps. m \<noteq> SkippedSummary ps) \<longrightarrow> P (Log m)"
    and "\<not> isDryRun env \<Longrightarrow> \<not> skipBuild env \<Longrightarrow> P (Exec (effective yarnBuild))"
  shows "runs I P (buildGate env)"
  unfolding buildGate_def
  by (intro runs_andThen runs_if runs_step runs_log runs_run assms(1))
    (simp_all add: assms(2,3))

lemma effective_gitDiff: "effective gitDiff = gitDiff"
  by (simp add: effective_def gitDiff_def cmd_def)

lemma effective_publishCommand: "effective (publishCommand env p v) = publishCommand env p v"
  by (simp add: effective_def publishCommand_def)

lemma runs_mutating:
  assumes "stable I" and "c \<in> set (mutatingCommands env v)"
    and "\<And>c. \<not> isDryRun env \<Longrightarrow> c \<in> set (mutatingCommands env v) \<Longrightarrow> P (Exec (effective c))"
    and "\<And>c. isDryRun env \<Longrightarrow> c \<in> set (mutatingCommands env v) \<Longrightarrow> P (DryLog c)"
  shows "runs I P (runIfNotDry env c)"
  by (rule runs_runIfNotDry) (simp_all add: assms)

lemma runs_commitStage:
  assumes "stable I" and "\<forall>m. (\<forall>ps. m \<noteq> SkippedSummary ps) \<longrightarrow> P (Log m)"
    and "P (Exec gitDiff)"
    and "\<And>c. \<not> isDryRun env \<Longrightarrow> c \<in> set (mutatingCommands env v) \<Longrightarrow> P (Exec (effective c))"
    and "\<And>c. isDryRun env \<Longrightarrow> c \<in> set (mutatingCommands env v) \<Longrightarrow> P (DryLog c)"
  shows "runs I P (commitStage env v)"
proof -
  have add: "runs I P (runIfNotDry env gitAdd)"
    by (rule runs_mutating [OF assms(1) _ assms(4,5)]) (simp_all add: mutatingCommands_def)
  have commit: "runs I P (runIfNotDry env (gitCommit v))"
    by (rule runs_mutating [OF assms(1) _ assms(4,5)]) (simp_all add: mutatingCommands_def)
  show ?thesis
    unfolding commitStage_def
    by (intro runs_andThen runs_if runs_step runs_log runs_run add commit assms(1))
      (simp_all add: assms(2,3) effective_gitDiff)
qed

lemma publishPackage_alt:
  "publishPackage env pkgName version =
     (\<lambda>st. if pkgName \<in> set (skippedPackages st) then ok () st
           else andThen (readManifest (getPkgRoot pkgName)) (publishRead env pkgName version) st)"
proof -
  have "publishRead env pkgName version =
      (\<lambda>pkg. if pkg = JNull then throw (NullManifest (getPkgRoot pkgName))
            else if truthyProp (privateProp pkg) then ok ()
            else andThen (step (Publishing pkgName))
                   (\<lambda>u. tryCatch
                          (andThen (runIfNotDry env (publishCommand env pkgName version))
                             (\<lambda>u. log (Published pkgName version)))
                          (publishFailed pkgName)))"
    by (rule ext) (simp add: publishRead_def)
  then show ?thesis
    by (intro ext) (simp add: publishPackage_def)
qed

lemma runs_publishFailed:
  assumes "stable I" and "\<forall>m. (\<forall>ps. m \<noteq> SkippedSummary ps) \<longrightarrow> P (Log m)"
  shows "runs I P (publishFailed p e)"
  by (cases e) (simp_all add: publishFailed_def runs_throw runs_log assms)

lemma runs_publishRead:
  assumes "stable I" and "\<forall>m. (\<forall>ps. m \<noteq> SkippedSummary ps) \<longrightarrow> P (Log m)"
    and "\<not> isDryRun env \<Longrightarrow> P (Exec (publishCommand env p v))"
    and "isDryRun env \<Longrightarrow> P (DryLog (publishCommand env p v))"
  shows "runs I P (publishRead env p v pkg)"
  unfolding publishRead_def
  by (intro runs_andThen runs_tryCatch runs_if runs_step runs_log runs_ok runs_throw
      runs_runIfNotDry runs_publishFailed assms(1,2))
    (simp_all add: assms effective_publishCommand)

lemma runs_publishPackage:
  assumes "stable I" and "\<forall>m. (\<forall>ps. m \<noteq> SkippedSummary ps) \<longrightarrow> P (Log m)"
    and "P (ReadManifest (getPkgRoot p))"
    and "\<not> isDryRun env \<Longrightarrow> P (Exec (publishCommand env p v))"
    and "isDryRun env \<Longrightarrow> P (DryLog (publishCommand env p v))"
  shows "runs I P (publishPackage env p v)"
  unfolding publishPackage_alt
  by (intro runs_state_if runs_andThen runs_readManifest runs_publishRead runs_ok assms)

lemma runs_publishStage:
  assumes "stable I" and "\<forall>m. (\<forall>ps. m \<noteq> SkippedSummary ps) \<longrightarrow> P (Log m)"
    and "\<And>d. P (ReadManifest d)"
    and "\<And>c. \<not> isDryRun env \<Longrightarrow> c \<in> set (mutatingCommands env v) \<Longrightarrow> P (Exec (effective c))"
    and "\<And>c. isDryRun env \<Longrightarrow> c \<in> set (mutatingCommands env v) \<Longrightarrow> P (DryLog c)"
  shows "runs I P (publishStage env v)"
proof -
  have "runs I P (publishPackage env p v)" if "p \<in> set (packages env)" for p
  proof (rule runs_publishPackage [OF assms(1,2)])
    have mem: "publishCommand env p v \<in> set (mutatingCommands env v)"
      using that by (simp add: mutatingCommands_def)
    show "\<not> isDryRun env \<Longrightarrow> P (Exec (publishCommand env p v))"
      using assms(4) [OF _ mem] by (simp add: effective_publishCommand)
    show "isDryRun env \<Longrightarrow> P (DryLog (publishCommand env p v))"
      using assms(5) [OF _ mem] .
    show "P (ReadManifest (getPkgRoot p))"
      by (rule assms(3))
  qed
  then show ?thesis
    unfolding publishStage_def
    by (intro runs_andThen runs_step runs_forEach assms(1)) (simp_all add: assms(2))
qed

lemma runs_pushStage:
  assumes "stable I" and "\<forall>m. (\<forall>ps. m \<noteq> SkippedSummary ps) \<longrightarrow> P (Log m)"
    and "\<And>c. \<not> isDryRun env \<Longrightarrow> c \<in> set (mutatingCommands env v) \<Longrightarrow> P (Exec (effective c))"
    and "\<And>c. isDryRun env \<Longrightarrow> c \<in> set (mutatingCommands env v) \<Longrightarrow> P (DryLog c)"
  shows "runs I P (pushStage env v)"
proof -
  have "runs I P (runIfNotDry env c)" if "c \<in> {gitTag v, gitPushTag v, gitPush}" for c
    by (rule runs_mutating [OF assms(1) _ assms(3,4)])
      (use that in \<open>auto simp: mutatingCommands_def\<close>)
  then show ?thesis
    unfolding pushStage_def
    by (intro runs_andThen runs_step assms(1)) (simp_all add: assms(2))
qed

lemma runs_skippedSummary:
  assumes "stable I"
    and "\<And>st. I st \<Longrightarrow> skippedPackages st \<noteq> [] \<Longrightarrow> P (Log (SkippedSummary (skippedPackages st)))"
  shows "runs I P skippedSummary"
  using assms
  by (auto simp: runs_def emits_def skippedSummary_def log_def emit_def ok_def stable_trace)

lemma runs_summary:
  assumes "stable I" and "\<forall>m. (\<forall>ps. m \<noteq> SkippedSummary ps) \<longrightarrow> P (Log m)"
    and "\<And>st. I st \<Longrightarrow> skippedPackages st \<noteq> [] \<Longrightarrow> P (Log (SkippedSummary (skippedPackages st)))"
  shows "runs I P (summary env)"
  unfolding summary_def
  by (intro runs_andThen runs_if runs_log runs_ok runs_skippedSummary assms(1) assms(3))
    (simp_all add: assms(2))

lemma runs_afterPropagation:
  assumes "stable I" and "\<forall>m. (\<forall>ps. m \<noteq> SkippedSummary ps) \<longrightarrow> P (Log m)"
    and "\<And>st. I st \<Longrightarrow> skippedPackages st \<noteq> [] \<Longrightarrow> P (Log (SkippedSummary (skippedPackages st)))"
    and "\<And>d. P (ReadManifest d)"
    and "P (Exec gitDiff)"
    and "\<not> isDryRun env \<Longrightarrow> \<not> skipBuild env \<Longrightarrow> P (Exec (effective yarnBuild))"
    and "\<And>c. \<not> isDryRun env \<Longrightarrow> c \<in> set (mutatingCommands env v) \<Longrightarrow> P (Exec (effective c))"
    and "\<And>c. isDryRun env \<Longrightarrow> c \<in> set (mutatingCommands env v) \<Longrightarrow> P (DryLog c)"
  shows "runs I P (afterPropagation env v)"
  unfolding afterPropagation_def
  by (intro runs_andThen runs_buildGate runs_commitStage runs_publishStage runs_pushStage
      runs_summary assms)

lemma runs_release:
  assumes "stable I" and "\<forall>m. (\<forall>ps. m \<noteq> SkippedSummary ps) \<longrightarrow> P (Log m)"
    and "\<And>st. I st \<Longrightarrow> skippedPackages st \<noteq> [] \<Longrightarrow> P (Log (SkippedSummary (skippedPackages st)))"
    and "\<And>d. P (ReadManifest d)"
    and "\<And>d pkg. P (WriteManifest d pkg)"
    and "P (Exec gitDiff)"
    and "\<not> isDryRun env \<Longrightarrow> \<not> skipBuild env \<Longrightarrow> P (Exec (effective yarnBuild))"
    and "\<And>c. \<not> isDryRun env \<Longrightarrow> c \<in> set (mutatingCommands env v) \<Longrightarrow> P (Exec (effective c))"
    and "\<And>c. isDryRun env \<Longrightarrow> c \<in> set (mutatingCommands env v) \<Longrightarrow> P (DryLog c)"
  shows "runs I P (release env v)"
  unfolding release_def
  by (intro runs_andThen runs_testGate runs_propagateStage runs_afterPropagation assms)

lemma runs_main:
  assumes "stable I" and "\<forall>m. (\<forall>ps. m \<noteq> SkippedSummary ps) \<longrightarrow> P (Log m)"
    and "\<And>st. I st \<Longrightarrow> skippedPackages st \<noteq> [] \<Longrightarrow> P (Log (SkippedSummary (skippedPackages st)))"
    and "\<And>k. P (Prompt k)"
    and "\<And>d. P (ReadManifest d)"
    and "\<And>d pkg. P (WriteManifest d pkg)"
    and "P (Exec gitDiff)"
    and "\<not> isDryRun env \<Longrightarrow> \<not> skipBuild env \<Longrightarrow> P (Exec (effective yarnBuild))"
    and "\<And>c v. \<not> isDryRun env \<Longrightarrow> c \<in> set (mutatingCommands env v) \<Longrightarrow> P (Exec (effective c))"
    and "\<And>c v. isDryRun env \<Longrightarrow> c \<in> set (mutatingCommands env v) \<Longrightarrow> P (DryLog c)"
  shows "runs I P (main env)"
proof -
  have "runs I P (release env v)" for v
    by (intro runs_release assms)
  then have "runs I P
      (andThen (promptFor (ConfirmRelease v) (answer_yes env))
         (\<lambda>yes. if \<not> yes then ok () else release env v))" for v
    by (intro runs_andThen runs_if runs_promptFor runs_ok assms(1) assms(4))
  then have "runs I P
      (case validVersion env tv of
         None \<Rightarrow> throw (InvalidTargetVersion tv)
       | Some version \<Rightarrow>
           andThen (promptFor (ConfirmRelease version) (answer_yes env))
             (\<lambda>yes. if \<not> yes then ok () else release env version))" for tv
    by (cases "validVersion env tv") (simp_all add: runs_throw assms(1))
  then show ?thesis
    unfolding main_def
    by (intro runs_andThen runs_resolveTargetVersion assms(1) assms(4))
qed

lemma runs_program:
  assumes "runs I P (main env)" and "stable I" and "\<And>e. P (ConsoleError e)"
  shows "runs I P (program env)"
  unfolding program_def
  by (intro runs_tryCatch runs_emit assms) (simp add: assms)


lemma emitsD:
  assumes "emits I Q m" and "I st"
  shows "\<exists>evs. trace (fst (m st)) = trace st @ evs \<and> Q evs (snd (m st))"
  using assms unfolding emits_def by blast

lemma emits_initial:
  assumes "emits (\<lambda>st. True) Q m"
  shows "Q (trace (fst (m (initialState fs)))) (snd (m (initialState fs)))"
  using emitsD [OF assms, of "initialState fs"] by (simp add: initialState_def)

lemma runs_initial:
  assumes "runs (\<lambda>st. True) P m"
  shows "list_all P (trace (fst (m (initialState fs))))"
  using emits_initial [OF assms [unfolded runs_def]] .

lemma emits_program:
  assumes "stable I" and "emits I Q (main env)"
    and "\<And>a x. Q a (Inr x) \<Longrightarrow> Q' a (Inr x)"
    and "\<And>a e. Q a (Inl e) \<Longrightarrow> Q' (a @ [ConsoleError e]) (Inr ())"
  shows "emits I Q' (program env)"
  unfolding program_def
  by (rule emits_tryCatch [where ?Q1.0 = Q and ?Q2.0 = "\<lambda>e b r. b = [ConsoleError e] \<and> r = Inr ()"])
    (simp_all add: assms emits_emit)

lemma andThen_assoc: "andThen (andThen m g) f = andThen m (\<lambda>x. andThen (g x) f)"
  by (rule ext) (simp add: andThen_def split: prod.splits sum.splits)

lemma release_core:
  "release env v =
     andThen (testGate env)
       (\<lambda>u. andThen (step UpdatingCrossDeps)
          (\<lambda>u. andThen (updateVersions env v) (\<lambda>u. afterPropagation env v)))"
  by (simp add: release_def propagateStage_def andThen_assoc)

lemma emits_prefix:
  assumes m: "runs I N m" and f: "\<And>x. emits I Q (f x)"
    and nil: "\<And>a r. list_all N a \<Longrightarrow> Q a r"
    and pre: "\<And>a b r. list_all N a \<Longrightarrow> Q b r \<Longrightarrow> Q (a @ b) r"
  shows "emits I Q (andThen m f)"
  by (rule emits_andThen [where ?Q1.0 = "\<lambda>evs r. list_all N evs" and ?Q2.0 = "\<lambda>x. Q"])
    (use assms in \<open>simp_all add: runs_def\<close>)

lemma emits_main_from_core:
  assumes I: "stable I"
    and core: "\<And>v. emits I Q (andThen (updateVersions env v) (\<lambda>u. afterPropagation env v))"
    and nil: "\<And>a r. list_all preEvent a \<Longrightarrow> Q a r"
    and pre: "\<And>a b r. list_all preEvent a \<Longrightarrow> Q b r \<Longrightarrow> Q (a @ b) r"
  shows "emits I Q (main env)"
proof -
  have gate: "runs I preEvent (testGate env)"
    unfolding testGate_def
    by (intro runs_andThen runs_if runs_step runs_log I) simp_all
  have upd: "runs I preEvent (step UpdatingCrossDeps)"
    by (intro runs_step I) simp
  have res: "runs I preEvent (resolveTargetVersion env)"
    by (intro runs_resolveTargetVersion I) simp
  have conf: "runs I preEvent (promptFor (ConfirmRelease v) (answer_yes env))" for v
    by (intro runs_promptFor I) simp
  have s1: "emits I Q (andThen (step UpdatingCrossDeps)
      (\<lambda>u. andThen (updateVersions env v) (\<lambda>u. afterPropagation env v)))" for v
    by (rule emits_prefix [where f = "\<lambda>u. andThen (updateVersions env v) (\<lambda>u. afterPropagation env v)",
          OF upd core nil pre])
  have rel: "emits I Q (release env v)" for v
    unfolding release_core
    by (rule emits_prefix [where f = "\<lambda>u. andThen (step UpdatingCrossDeps)
          (\<lambda>u. andThen (updateVersions env v) (\<lambda>u. afterPropagation env v))",
          OF gate s1 nil pre])
  have s2: "emits I Q (if \<not> yes then ok () else release env v)" for yes v
    by (simp add: emits_ok rel nil)
  have s3: "emits I Q (andThen (promptFor (ConfirmRelease v) (answer_yes env))
      (\<lambda>yes. if \<not> yes then ok () else release env v))" for v
    by (rule emits_prefix [where f = "\<lambda>yes. if \<not> yes then ok () else release env v",
          OF conf s2 nil pre])
  have s4: "emits I Q (case validVersion env tv of
        None \<Rightarrow> throw (InvalidTargetVersion tv)
      | Some version \<Rightarrow>
          andThen (promptFor (ConfirmRelease version) (answer_yes env))
            (\<lambda>yes. if \<not> yes then ok () else release env version))" for tv
    by (simp add: emits_throw s3 nil split: option.splits)
  show ?thesis
    unfolding main_def
    by (rule emits_prefix [where f = "\<lambda>tv. case validVersion env tv of
            None \<Rightarrow> throw (InvalidTargetVersion tv)
          | Some version \<Rightarrow>
              andThen (promptFor (ConfirmRelease version) (answer_yes env))
                (\<lambda>yes. if \<not> yes then ok () else release env version)",
          OF res s4 nil pre])
qed

section \<open>Dry runs, and the manifests a run writes\<close>


lemma writtenDirs_append: "writtenDirs (xs @ ys) = writtenDirs xs @ writtenDirs ys"
  by (induction xs rule: writtenDirs.induct) simp_all

lemma writtenDirs_none:
  "list_all (\<lambda>e. case e of WriteManifest d pkg \<Rightarrow> False | _ \<Rightarrow> True) evs \<Longrightarrow> writtenDirs evs = []"
  by (induction evs rule: writtenDirs.induct) simp_all

lemma writtenDirs_pre: "list_all preEvent evs \<Longrightarrow> writtenDirs evs = []"
  by (induction evs rule: writtenDirs.induct) simp_all

lemma building_pre: "list_all preEvent evs \<Longrightarrow> Log BuildingAll \<notin> set evs"
  by (induction evs) auto

lemma writtenDirs_logs: "writtenDirs (map Log ms) = []"
  by (induction ms) simp_all

lemma updatePackage_trace:
  "trace (fst (updatePackage env d v st)) =
     trace st @
       (case files st d of
          None \<Rightarrow> [ReadManifest d]
        | Some pkg \<Rightarrow>
            if pkg = JNull then [ReadManifest d]
            else ReadManifest d # map Log (snd (updatedDocument (packages env) v pkg))
                 @ [WriteManifest d (fst (updatedDocument (packages env) v pkg))])"
  by (simp add: updatePackage_def andThen_def readManifest_def emit_def writeManifest_def
      throw_def split: option.splits)

lemma emits_updatePackage_writes:
  "emits (\<lambda>st. True) (\<lambda>evs r. writtenDirs evs = (if r = Inr () then [d] else []))
     (updatePackage env d v)"
  unfolding emits_def
  by (auto simp: updatePackage_trace updatePackage_result writtenDirs_append writtenDirs_logs
      split: option.splits)

lemma emits_forEach_writes:
  "emits (\<lambda>st. True)
     (\<lambda>evs r. (\<exists>rest. ds = writtenDirs evs @ rest) \<and> (r = Inr () \<longrightarrow> writtenDirs evs = ds))
     (forEach (\<lambda>d. updatePackage env d v) ds)"
proof (induction ds)
  case Nil
  then show ?case by (simp add: emits_ok)
next
  case (Cons d ds)
  show ?case
    unfolding forEach.simps
    by (rule emits_andThen [OF emits_updatePackage_writes Cons.IH])
      (auto simp: writtenDirs_append)
qed

lemma runs_updateVersions_quiet:
  "runs (\<lambda>st. True) (\<lambda>e. e \<noteq> Log BuildingAll) (updateVersions env v)"
  by (intro runs_updateVersions stable_True) simp_all

lemma emits_conj:
  assumes "emits I Q1 m" and "emits I Q2 m"
  shows "emits I (\<lambda>evs r. Q1 evs r \<and> Q2 evs r) m"
  unfolding emits_def
proof (intro allI impI)
  fix st assume "I st"
  from emitsD [OF assms(1) this] emitsD [OF assms(2) this] assms(1) \<open>I st\<close>
  show "I (fst (m st)) \<and>
        (\<exists>evs. trace (fst (m st)) = trace st @ evs \<and> Q1 evs (snd (m st)) \<and> Q2 evs (snd (m st)))"
    unfolding emits_def by auto
qed

lemma set_quiet: "list_all (\<lambda>e. e \<noteq> x) evs \<Longrightarrow> x \<notin> set evs"
  by (induction evs) auto

lemma emits_main_writes:
  "emits (\<lambda>st. True)
     (\<lambda>evs r. (\<exists>rest. manifestDirs env = writtenDirs evs @ rest)
             \<and> (Log BuildingAll \<in> set evs \<longrightarrow> writtenDirs evs = manifestDirs env))
     (main env)"
proof (rule emits_main_from_core [OF stable_True])
  fix v
  have upd: "emits (\<lambda>st. True)
      (\<lambda>evs r. ((\<exists>rest. manifestDirs env = writtenDirs evs @ rest)
                 \<and> (r = Inr () \<longrightarrow> writtenDirs evs = manifestDirs env))
               \<and> list_all (\<lambda>e. e \<noteq> Log BuildingAll) evs)
      (updateVersions env v)"
    using emits_conj [OF emits_forEach_writes
        runs_updateVersions_quiet [unfolded runs_def updateVersions_dirs]]
    by (simp add: updateVersions_dirs)
  have after: "emits (\<lambda>st. True)
      (\<lambda>evs r. list_all (\<lambda>e. case e of WriteManifest d pkg \<Rightarrow> False | _ \<Rightarrow> True) evs)
      (afterPropagation env v)"
    using runs_afterPropagation [of "\<lambda>st. True"
        "\<lambda>e. case e of WriteManifest d pkg \<Rightarrow> False | _ \<Rightarrow> True" env v]
    by (simp add: runs_def stable_True)
  show "emits (\<lambda>st. True)
      (\<lambda>evs r. (\<exists>rest. manifestDirs env = writtenDirs evs @ rest)
              \<and> (Log BuildingAll \<in> set evs \<longrightarrow> writtenDirs evs = manifestDirs env))
      (andThen (updateVersions env v) (\<lambda>u. afterPropagation env v))"
    by (rule emits_andThen [OF upd after])
      (auto simp: writtenDirs_append writtenDirs_none dest: set_quiet)
qed (auto simp: writtenDirs_append writtenDirs_pre dest: building_pre)

lemma appends_only: "runs I (\<lambda>e. True) m \<Longrightarrow> emits I (\<lambda>evs r. True) m"
  unfolding runs_def by (rule emits_weaken) simp_all






lemma list_all_Exec:
  "list_all (\<lambda>e. case e of Exec c \<Rightarrow> P c | _ \<Rightarrow> True) evs \<Longrightarrow> Exec c \<in> set evs \<Longrightarrow> P c"
  by (auto simp: list_all_iff)















section \<open>The test gate\<close>

lemma not_test_commands:
  "\<not> isTestCommand gitDiff" "\<not> isTestCommand (effective yarnBuild)"
  "c \<in> set (mutatingCommands env v) \<Longrightarrow> \<not> isTestCommand (effective c)"
  by (auto simp: isTestCommand_def gitDiff_def yarnBuild_def cmd_def effective_def endsWith_def
      mutatingCommands_def gitAdd_def gitCommit_def gitTag_def gitPushTag_def gitPush_def
      publishCommand_def)

lemma testGate_live:
  assumes "\<not> skipTests env" and "\<not> isDryRun env"
  shows "testGate env st = (st\<lparr>trace := trace st @ [Log RunningTests, Log NoUnitTests]\<rparr>, Inr ())"
  using assms by (simp add: testGate_def andThen_def step_def log_def emit_def)

text \<open>
  C5, as amended: in a live run without \<^verbatim>\<open>--skipTests\<close> the test gate runs no command.
  It prints its heading and the note that there are no unit tests, changes nothing else
  and always succeeds, so the run goes on to propagation; and no run ever executes a test
  command.
\<close>

theorem test_gate_runs_no_command:
  assumes "\<not> skipTests env" and "\<not> isDryRun env"
  shows "testGate env st = (st\<lparr>trace := trace st @ [Log RunningTests, Log NoUnitTests]\<rparr>, Inr ())
       \<and> release env v st =
           andThen (propagateStage env v) (\<lambda>u. afterPropagation env v)
             (st\<lparr>trace := trace st @ [Log RunningTests, Log NoUnitTests]\<rparr>)
       \<and> (\<forall>c. Exec c \<in> set (trace (fst (program env (initialState fs)))) \<longrightarrow> \<not> isTestCommand c)"
proof -
  have "runs (\<lambda>st. True) (\<lambda>e. case e of Exec c \<Rightarrow> \<not> isTestCommand c | _ \<Rightarrow> True) (program env)"
    by (intro runs_program runs_main stable_True) (simp_all add: not_test_commands)
  from runs_initial [OF this, of fs]
  have "\<forall>c. Exec c \<in> set (trace (fst (program env (initialState fs)))) \<longrightarrow> \<not> isTestCommand c"
    by (auto dest: list_all_Exec)
  then show ?thesis
    using testGate_live [OF assms] by (simp add: release_def andThen_def)
qed

lemma demo_run_trace:
  "trace (fst (program demoEnv (initialState demoFiles))) =
    [Prompt (ConfirmRelease ''3.0.1''), Log RunningTests, Log NoUnitTests,
     Log UpdatingCrossDeps]
    @ demoPropagation
    @ [Log BuildingAll,
     Exec (effective yarnBuild),
     Log VerifyingTypes, Log NoDtsTests,
     Exec gitDiff,
     Log CommittingChanges,
     Exec (effective gitAdd),
     Exec (effective (gitCommit ''3.0.1'')),
     Log PublishingPackages, ReadManifest (PkgDir ''reactivity''),
     Log (Publishing ''reactivity''),
     Exec (publishCommand demoEnv ''reactivity'' ''3.0.1''),
     Log (Published ''reactivity'' ''3.0.1''),
     ReadManifest (PkgDir ''shared''), Log (Publishing ''shared''),
     Exec (publishCommand demoEnv ''shared'' ''3.0.1''),
     Log (Published ''shared'' ''3.0.1''), Log PushingToGitHub,
     Exec (effective (gitTag ''3.0.1'')),
     Exec (effective (gitPushTag ''3.0.1'')),
     Exec (effective gitPush),
     Log EmptyLine]"
  by code_simp

lemma demo_live: "\<not> skipTests demoEnv" "\<not> isDryRun demoEnv"
  by (simp_all add: skipTests_def isDryRun_def demoEnv_def)

lemma demo_commands_differ:
  "effective yarnTest \<noteq> effective yarnBuild" "effective yarnTest \<noteq> gitDiff"
  "effective yarnTest \<noteq> effective gitAdd" "effective yarnTest \<noteq> effective (gitCommit v)"
  "effective yarnTest \<noteq> publishCommand env p v" "effective yarnTest \<noteq> effective (gitTag v)"
  "effective yarnTest \<noteq> effective (gitPushTag v)" "effective yarnTest \<noteq> effective gitPush"
  by (simp_all add: effective_def yarnTest_def yarnBuild_def gitDiff_def gitAdd_def gitCommit_def
      publishCommand_def gitTag_def gitPushTag_def gitPush_def cmd_def)

text \<open>
  C5 as stated fails: this live run without \<^verbatim>\<open>--skipTests\<close> passes the test gate and
  runs to the final \<^verbatim>\<open>git push\<close> without executing \<^verbatim>\<open>yarn test --bail\<close>, which would
  have failed.
\<close>

theorem test_gate_counterexample:
  "\<not> skipTests demoEnv \<and> \<not> isDryRun demoEnv
   \<and> Log RunningTests \<in> set (trace (fst (program demoEnv (initialState demoFiles))))
   \<and> Exec (effective yarnTest) \<notin> set (trace (fst (program demoEnv (initialState demoFiles))))
   \<and> fst (execa demoEnv [] demoFiles (effective yarnTest)) = Rejected ''1 test failed''
   \<and> Exec (effective gitPush) \<in> set (trace (fst (program demoEnv (initialState demoFiles))))"
  by (simp add: demo_live demo_run_trace demoPropagation_def demo_commands_differ)
    (simp add: demoEnv_def isTestCommand_def effective_def yarnTest_def cmd_def)

theorem test_gate_runs_no_command_witness:
  "\<not> skipTests demoEnv \<and> \<not> isDryRun demoEnv
   \<and> testGate demoEnv (initialState demoFiles)
       = ((initialState demoFiles)\<lparr>trace := [Log RunningTests, Log NoUnitTests]\<rparr>, Inr ())
   \<and> Exec gitDiff \<in> set (trace (fst (program demoEnv (initialState demoFiles))))
   \<and> \<not> isTestCommand gitDiff"
proof -
  have d: "Exec gitDiff \<in> set (trace (fst (program demoEnv (initialState demoFiles))))"
    by (simp add: demo_run_trace demoPropagation_def)
  from test_gate_runs_no_command [OF demo_live, of "initialState demoFiles" "''3.0.1''" demoFiles] d
  show ?thesis
    using demo_live by (auto simp: initialState_def)
qed


section \<open>The skip list and the manifests that publishing reads\<close>

lemma stable_skipped_eq: "stable (\<lambda>st. skippedPackages st = xs)"
  by (simp add: stable_def)

lemma stable_not_skipped: "stable (\<lambda>st. p \<notin> set (skippedPackages st))"
  by (simp add: stable_def)

lemma readDirs_append: "readDirs (xs @ ys) = readDirs xs @ readDirs ys"
  by (induction xs rule: readDirs.induct) simp_all

lemma readDirs_none:
  "list_all (\<lambda>e. case e of ReadManifest d \<Rightarrow> False | _ \<Rightarrow> True) evs \<Longrightarrow> readDirs evs = []"
  by (induction evs rule: readDirs.induct) simp_all

lemma emitted_eq: "trace (fst (m st)) = trace st @ evs \<Longrightarrow> emitted m st = evs"
  by (simp add: emitted_def)

lemma emits_readManifest_event:
  "stable I \<Longrightarrow> emits I (\<lambda>evs r. evs = [ReadManifest d]) (readManifest d)"
  by (auto simp: emits_def readManifest_def stable_trace split: option.splits)

lemma emits_publishPackage_first:
  assumes I: "stable I" and skip: "\<And>st. I st \<Longrightarrow> p \<notin> set (skippedPackages st)"
    and body: "\<And>pkg. emits I (\<lambda>evs r. Q' evs) (publishRead env p v pkg)"
    and fail: "Q [ReadManifest (getPkgRoot p)]"
    and app: "\<And>b. Q' b \<Longrightarrow> Q (ReadManifest (getPkgRoot p) # b)"
  shows "emits I (\<lambda>evs r. Q evs) (publishPackage env p v)"
proof -
  have "emits I (\<lambda>evs r. Q evs)
      (andThen (readManifest (getPkgRoot p)) (publishRead env p v))"
    by (rule emits_andThen [OF emits_readManifest_event [OF I] body]) (simp_all add: fail app)
  then show ?thesis
    unfolding emits_def publishPackage_alt by (simp add: skip)
qed

lemma emits_publishPackage_reads:
  "emits (\<lambda>st. skippedPackages st = []) (\<lambda>evs r. readDirs evs = [getPkgRoot p])
     (publishPackage env p v)"
proof (rule emits_publishPackage_first
    [where Q' = "list_all (\<lambda>e. case e of ReadManifest d \<Rightarrow> False | _ \<Rightarrow> True)"])
  show "stable (\<lambda>st. skippedPackages st = [])"
    by (rule stable_skipped_eq)
  show "emits (\<lambda>st. skippedPackages st = [])
      (\<lambda>evs r. list_all (\<lambda>e. case e of ReadManifest d \<Rightarrow> False | _ \<Rightarrow> True) evs)
      (publishRead env p v pkg)" for pkg
    using runs_publishRead [of "\<lambda>st. skippedPackages st = []"
        "\<lambda>e. case e of ReadManifest d \<Rightarrow> False | _ \<Rightarrow> True" env p v pkg]
    by (simp add: runs_def stable_skipped_eq)
qed (simp_all add: readDirs_none)

lemma emits_forEach_reads:
  "emits (\<lambda>st. skippedPackages st = [])
     (\<lambda>evs r. r = Inr () \<longrightarrow> readDirs evs = map getPkgRoot ps)
     (forEach (\<lambda>p. publishPackage env p v) ps)"
proof (induction ps)
  case Nil
  then show ?case by (simp add: emits_ok)
next
  case (Cons p ps)
  show ?case
    unfolding forEach.simps
    by (rule emits_andThen [OF emits_publishPackage_reads Cons.IH])
      (simp_all add: readDirs_append)
qed

lemma emits_publishStage_reads:
  "emits (\<lambda>st. skippedPackages st = [])
     (\<lambda>evs r. r = Inr () \<longrightarrow> readDirs evs = map getPkgRoot (packages env))
     (publishStage env v)"
proof -
  have heading: "emits (\<lambda>st. skippedPackages st = []) (\<lambda>evs r. evs = [Log PublishingPackages])
      (step PublishingPackages)"
    by (simp add: step_def emits_emit stable_skipped_eq)
  show ?thesis
    unfolding publishStage_def
    by (rule emits_andThen [OF heading emits_forEach_reads]) simp_all
qed

lemma list_all_no_summary:
  "list_all (\<lambda>e. \<forall>ps. e \<noteq> Log (SkippedSummary ps)) evs \<Longrightarrow> Log (SkippedSummary ps) \<notin> set evs"
  by (induction evs) auto

text \<open>
  C10: \<^verbatim>\<open>skippedPackages\<close> starts empty and no run changes it, whatever state it starts
  from; hence the summary of skipped packages is never printed, and in a publish stage
  that completes, \<^verbatim>\<open>publishPackage\<close> has got past the check of line 213 and read the
  manifest of every package: none was skipped.
\<close>

theorem skippedPackages_never_changes:
  "skippedPackages (initialState fs) = []
   \<and> skippedPackages (fst (program env st)) = skippedPackages st
   \<and> (\<forall>ps. Log (SkippedSummary ps) \<notin> set (trace (fst (program env (initialState fs)))))
   \<and> (skippedPackages st = [] \<and> snd (publishStage env v st) = Inr () \<longrightarrow>
        readDirs (emitted (publishStage env v) st) = map getPkgRoot (packages env))"
proof -
  have "runs (\<lambda>s. skippedPackages s = skippedPackages st) (\<lambda>e. True) (program env)"
    by (intro runs_program runs_main stable_skipped_eq) simp_all
  from runsD(1) [OF this]
  have kept: "skippedPackages (fst (program env st)) = skippedPackages st"
    by simp
  have "runs (\<lambda>s. skippedPackages s = []) (\<lambda>e. \<forall>ps. e \<noteq> Log (SkippedSummary ps)) (program env)"
    by (intro runs_program runs_main stable_skipped_eq) simp_all
  from runsD(2) [OF this, of "initialState fs"]
  have quiet: "\<forall>ps. Log (SkippedSummary ps) \<notin> set (trace (fst (program env (initialState fs))))"
    by (auto simp: initialState_def dest: list_all_no_summary)
  have reads: "readDirs (emitted (publishStage env v) st) = map getPkgRoot (packages env)"
    if "skippedPackages st = []" and "snd (publishStage env v st) = Inr ()"
    using emitsD [OF emits_publishStage_reads that(1), of env v] that(2)
    by (auto simp: emitted_eq)
  show ?thesis
    using kept quiet reads by (simp add: initialState_def)
qed

lemma demo_publishStage:
  "snd (publishStage demoEnv ''3.0.1'' (initialState demoFiles)) = Inr ()"
  by code_simp

theorem skippedPackages_never_changes_witness:
  "skippedPackages (fst (program demoEnv (initialState demoFiles))) = []
   \<and> Log (SkippedSummary []) \<notin> set (trace (fst (program demoEnv (initialState demoFiles))))
   \<and> snd (publishStage demoEnv ''3.0.1'' (initialState demoFiles)) = Inr ()
   \<and> readDirs (emitted (publishStage demoEnv ''3.0.1'') (initialState demoFiles))
       = [PkgDir ''reactivity'', PkgDir ''shared'']"
  using skippedPackages_never_changes [of demoFiles demoEnv "initialState demoFiles" "''3.0.1''"]
    demo_publishStage
  by (simp add: initialState_def demo_packages getPkgRoot_def)

lemma emits_publishPackage_starts:
  "emits (\<lambda>st. p \<notin> set (skippedPackages st))
     (\<lambda>evs r. \<exists>rest. evs = ReadManifest (getPkgRoot p) # rest)
     (publishPackage env p v)"
proof (rule emits_publishPackage_first [where Q' = "\<lambda>evs. True"])
  show "stable (\<lambda>st. p \<notin> set (skippedPackages st))"
    by (rule stable_not_skipped)
  show "emits (\<lambda>st. p \<notin> set (skippedPackages st)) (\<lambda>evs r. True)
      (publishRead env p v pkg)" for pkg
    by (intro appends_only runs_publishRead stable_not_skipped) simp_all
qed simp_all

lemma distinct_manifestDirs: "distinct (listing env) \<Longrightarrow> distinct (manifestDirs env)"
  by (auto simp: manifestDirs_def packages_def getPkgRoot_def distinct_map inj_on_def)

text \<open>
  C8, as amended: in a run, the manifests are written in the order of propagation, each
  at most as often as it is listed (at most once, as the names of a directory listing
  differ), and nothing after propagation writes one; when propagation has completed, each
  was written exactly once. But \<^verbatim>\<open>publishPackage\<close> starts by reading the manifest of
  its package again (line 218), unless the package is in the skip list.
\<close>

theorem manifests_written_once_and_read_again:
  "(\<exists>rest. manifestDirs env = writtenDirs (trace (fst (program env (initialState fs)))) @ rest)
   \<and> (Log BuildingAll \<in> set (trace (fst (program env (initialState fs)))) \<longrightarrow>
        writtenDirs (trace (fst (program env (initialState fs)))) = manifestDirs env)
   \<and> (distinct (listing env) \<longrightarrow> distinct (manifestDirs env))
   \<and> (pkgName \<notin> set (skippedPackages st) \<longrightarrow>
        (\<exists>rest. emitted (publishPackage env pkgName v) st
                 = ReadManifest (getPkgRoot pkgName) # rest))"
proof -
  have "emits (\<lambda>st. True)
      (\<lambda>evs r. (\<exists>rest. manifestDirs env = writtenDirs evs @ rest)
              \<and> (Log BuildingAll \<in> set evs \<longrightarrow> writtenDirs evs = manifestDirs env))
      (program env)"
    by (rule emits_program [OF stable_True emits_main_writes]) (auto simp: writtenDirs_append)
  from emits_initial [OF this, of fs]
  have writes: "(\<exists>rest. manifestDirs env
                  = writtenDirs (trace (fst (program env (initialState fs)))) @ rest)
      \<and> (Log BuildingAll \<in> set (trace (fst (program env (initialState fs)))) \<longrightarrow>
           writtenDirs (trace (fst (program env (initialState fs)))) = manifestDirs env)" .
  have "\<exists>rest. emitted (publishPackage env pkgName v) st = ReadManifest (getPkgRoot pkgName) # rest"
    if "pkgName \<notin> set (skippedPackages st)"
    using emitsD [OF emits_publishPackage_starts that, of env v] by (auto simp: emitted_eq)
  then show ?thesis
    using writes distinct_manifestDirs by blast
qed

text \<open>
  C8 as stated fails: in this run the manifest of \<^verbatim>\<open>packages/shared\<close> is read after it
  was written; the publish stage reads both package manifests a second time.
\<close>

theorem manifest_read_again_counterexample:
  "readAfterWrite (PkgDir ''shared'') (trace (fst (program demoEnv (initialState demoFiles))))
   \<and> readDirs (trace (fst (program demoEnv (initialState demoFiles))))
       = [RootDir, PkgDir ''reactivity'', PkgDir ''shared'', PkgDir ''reactivity'', PkgDir ''shared'']"
  by (simp add: demo_run_trace demoPropagation_def)

theorem manifests_written_once_and_read_again_witness:
  "Log BuildingAll \<in> set (trace (fst (program demoEnv (initialState demoFiles))))
   \<and> writtenDirs (trace (fst (program demoEnv (initialState demoFiles))))
       = [RootDir, PkgDir ''reactivity'', PkgDir ''shared'']
   \<and> distinct (listing demoEnv)
   \<and> distinct (manifestDirs demoEnv)
   \<and> ''shared'' \<notin> set (skippedPackages (initialState demoFiles))
   \<and> take 1 (emitted (publishPackage demoEnv ''shared'' ''3.0.1'') (initialState demoFiles))
       = [ReadManifest (PkgDir ''shared'')]"
proof -
  have b: "Log BuildingAll \<in> set (trace (fst (program demoEnv (initialState demoFiles))))"
    by (simp add: demo_run_trace demoPropagation_def)
  have d: "distinct (listing demoEnv)"
    by (simp add: demoEnv_def)
  have s: "''shared'' \<notin> set (skippedPackages (initialState demoFiles))"
    by (simp add: initialState_def)
  from manifests_written_once_and_read_again
    [of demoEnv demoFiles "''shared''" "initialState demoFiles" "''3.0.1''"] b d s
  have "writtenDirs (trace (fst (program demoEnv (initialState demoFiles)))) = manifestDirs demoEnv
      \<and> distinct (manifestDirs demoEnv)
      \<and> (\<exists>rest. emitted (publishPackage demoEnv ''shared'' ''3.0.1'') (initialState demoFiles)
                   = ReadManifest (getPkgRoot ''shared'') # rest)"
    by blast
  then show ?thesis
    using b d s by (auto simp: demo_dirs getPkgRoot_def)
qed


section \<open>The increments offered\<close>

text \<open>
  C6, as amended: the increments offered are \<^verbatim>\<open>patch\<close>, \<^verbatim>\<open>minor\<close>, \<^verbatim>\<open>major\<close>, followed by
  \<^verbatim>\<open>prepatch\<close>, \<^verbatim>\<open>preminor\<close>, \<^verbatim>\<open>premajor\<close>, \<^verbatim>\<open>prerelease\<close> exactly when \<^verbatim>\<open>preId\<close> is
  truthy: the value that \<^verbatim>\<open>minimist\<close> parsed for \<^verbatim>\<open>--preid\<close> is truthy (a non-empty
  string, a number other than 0, \<^verbatim>\<open>true\<close>, or the array of a repeated option), or the
  current version has a prerelease part whose first identifier is truthy (a non-empty
  string or a number other than 0). So \<^verbatim>\<open>--preid 0\<close>, which is parsed as the number 0,
  and \<^verbatim>\<open>--preid=\<close>, the empty string, offer the four only through the current version.
  The select prompt offers one choice for each, and \<^verbatim>\<open>custom\<close>.
\<close>

theorem versionIncrements_pre_kinds:
  "versionIncrements env =
     [''patch'', ''minor'', ''major'']
     @ (if truthy (arg_preid env)
           \<or> (case semver_prerelease env (currentVersion env) of
                 Some (i # rest) \<Rightarrow> truthy i
               | _ \<Rightarrow> False)
        then [''prepatch'', ''preminor'', ''premajor'', ''prerelease''] else [])
   \<and> choices env =
       map (\<lambda>i. i @ '' ('' @ (case inc env i of None \<Rightarrow> ''null'' | Some v \<Rightarrow> v) @ '')'')
         (versionIncrements env) @ [''custom'']"
proof -
  have "truthy (preId env) =
      (truthy (arg_preid env)
       \<or> (case semver_prerelease env (currentVersion env) of
             Some (i # rest) \<Rightarrow> truthy i
           | _ \<Rightarrow> False))"
    by (auto simp: preId_def split: option.splits list.splits)
  then show ?thesis
    by (simp add: versionIncrements_def choices_def)
qed

text \<open>
  C6 as stated fails: with \<^verbatim>\<open>--preid=beta\<close> the four prerelease increments are offered
  although the current version \<^verbatim>\<open>3.0.0\<close> carries no prerelease identifier.
\<close>

theorem preid_flag_counterexample:
  "semver_prerelease preidEnv (currentVersion preidEnv) = None
   \<and> versionIncrements preidEnv =
       [''patch'', ''minor'', ''major'', ''prepatch'', ''preminor'', ''premajor'', ''prerelease'']"
  by (simp add: preidEnv_def demoEnv_def versionIncrements_def preId_def)

theorem versionIncrements_pre_kinds_witness:
  "versionIncrements demoEnv = [''patch'', ''minor'', ''major'']
   \<and> versionIncrements preidEnv =
       [''patch'', ''minor'', ''major'', ''prepatch'', ''preminor'', ''premajor'', ''prerelease'']
   \<and> versionIncrements preidZeroEnv = [''patch'', ''minor'', ''major'']
   \<and> versionIncrements betaEnv =
       [''patch'', ''minor'', ''major'', ''prepatch'', ''preminor'', ''premajor'', ''prerelease'']"
  using versionIncrements_pre_kinds [of demoEnv] versionIncrements_pre_kinds [of preidEnv]
    versionIncrements_pre_kinds [of preidZeroEnv] versionIncrements_pre_kinds [of betaEnv]
  by (simp add: preidEnv_def preidZeroEnv_def betaEnv_def demoEnv_def)

section \<open>The top level\<close>

text \<open>
  C9: whatever \<^verbatim>\<open>main\<close> does, the program completes normally. An error that any stage
  of \<^verbatim>\<open>main\<close> raises is caught by the handler of line 269, which prints it as the last
  thing the program does; nothing is raised past it.
\<close>

theorem program_catches_every_error:
  "snd (program env st) = Inr ()
   \<and> (\<forall>err. snd (main env st) = Inl err \<longrightarrow>
        trace (fst (program env st)) = trace (fst (main env st)) @ [ConsoleError err])
   \<and> (snd (main env st) = Inr () \<longrightarrow> fst (program env st) = fst (main env st))"
  by (cases "main env st") (auto simp: program_def tryCatch_def emit_def split: sum.splits)

lemma invalid_main:
  "main invalidEnv (initialState demoFiles)
     = (initialState demoFiles, Inl (InvalidTargetVersion (JStr ''1.2'')))"
  by (simp add: main_def resolveTargetVersion_def validVersion_def invalidEnv_def demoEnv_def
      andThen_def ok_def throw_def)

lemma decline_main:
  "main declineEnv (initialState demoFiles)
     = ((initialState demoFiles)\<lparr>trace := [Prompt (ConfirmRelease ''3.0.1'')]\<rparr>, Inr ())"
  by (simp add: main_def resolveTargetVersion_def validVersion_def declineEnv_def demoEnv_def
      andThen_def ok_def promptFor_def emit_def initialState_def)

theorem program_catches_every_error_witness:
  "snd (main invalidEnv (initialState demoFiles)) = Inl (InvalidTargetVersion (JStr ''1.2''))
   \<and> snd (program invalidEnv (initialState demoFiles)) = Inr ()
   \<and> trace (fst (program invalidEnv (initialState demoFiles)))
       = [ConsoleError (InvalidTargetVersion (JStr ''1.2''))]
   \<and> snd (main declineEnv (initialState demoFiles)) = Inr ()
   \<and> trace (fst (program declineEnv (initialState demoFiles)))
       = [Prompt (ConfirmRelease ''3.0.1'')]"
  using program_catches_every_error [of invalidEnv "initialState demoFiles"]
    program_catches_every_error [of declineEnv "initialState demoFiles"]
  by (simp add: invalid_main decline_main) (simp add: initialState_def)

section \<open>The commit stage\<close>

lemmas command_defs =
  effective_def cmd_def gitDiff_def gitAdd_def gitCommit_def gitTag_def gitPushTag_def
  gitPush_def yarnBuild_def yarnTest_def

lemma commitStage_rejected:
  assumes "execa env (trace st) (files st) gitDiff = (Rejected err, fs1)"
  shows "commitStage env v st =
    (st\<lparr>files := fs1, trace := trace st @ [Exec gitDiff]\<rparr>, Inl (ExecFailed gitDiff err))"
  using assms by (simp add: commitStage_def andThen_def run_def effective_gitDiff)

lemma commitStage_clean:
  assumes "execa env (trace st) (files st) gitDiff = (Resolved [], fs1)"
  shows "commitStage env v st =
    (st\<lparr>files := fs1, trace := trace st @ [Exec gitDiff, Log NoChanges]\<rparr>, Inr ())"
  using assms by (simp add: commitStage_def andThen_def run_def effective_gitDiff log_def emit_def)

lemma commitStage_changes:
  assumes "execa env (trace st) (files st) gitDiff = (Resolved out, fs1)" and "out \<noteq> []"
  shows "commitStage env v st =
    andThen (runIfNotDry env gitAdd) (\<lambda>u. runIfNotDry env (gitCommit v))
      (st\<lparr>files := fs1, trace := trace st @ [Exec gitDiff, Log CommittingChanges]\<rparr>)"
  using assms by (simp add: commitStage_def andThen_def run_def effective_gitDiff step_def emit_def)

lemma add_then_commit_dry:
  assumes "isDryRun env"
  shows "andThen (runIfNotDry env gitAdd) (\<lambda>u. runIfNotDry env (gitCommit v)) s =
    (s\<lparr>trace := trace s @ [DryLog gitAdd, DryLog (gitCommit v)]\<rparr>, Inr ())"
  using assms by (simp add: runIfNotDry_def dryRun_def andThen_def emit_def)

lemma add_then_commit_live:
  assumes "\<not> isDryRun env"
  shows "trace (fst (andThen (runIfNotDry env gitAdd) (\<lambda>u. runIfNotDry env (gitCommit v)) s))
      = trace s @ Exec (effective gitAdd)
          # (if resolved (fst (execa env (trace s) (files s) (effective gitAdd)))
             then [Exec (effective (gitCommit v))] else [])"
    and "snd (andThen (runIfNotDry env gitAdd) (\<lambda>u. runIfNotDry env (gitCommit v)) s) = Inr ()
      \<Longrightarrow> resolved (fst (execa env (trace s) (files s) (effective gitAdd)))"
  using assms
  by (auto simp: runIfNotDry_def andThen_def run_def ok_def resolved_def
      split: prod.splits cmd_result.splits)

lemma commit_commands_differ:
  "gitDiff \<noteq> effective gitAdd" "gitDiff \<noteq> effective (gitCommit v)"
  "effective gitAdd \<noteq> gitDiff" "effective (gitCommit v) \<noteq> gitDiff"
  "effective gitAdd \<noteq> effective (gitCommit v)" "gitAdd \<noteq> gitCommit v"
  "effective (gitCommit v) \<noteq> effective gitAdd" "gitCommit v \<noteq> gitAdd"
  by (simp_all add: command_defs)

text \<open>
  C7: the events of a commit stage, for every state, version and mode. The stage always
  executes \<^verbatim>\<open>git diff\<close>, also in a dry run. When that resolves with a non-empty
  output, a live stage executes \<^verbatim>\<open>git add -A\<close> and then, unless \<^verbatim>\<open>git add\<close> failed,
  executes \<^verbatim>\<open>git commit -m "release: v<version>"\<close>; a dry stage prints the two commands
  and executes neither. When the output is empty, the stage prints the notice and
  completes, and when \<^verbatim>\<open>git diff\<close> fails it stops there: in both cases nothing is
  staged, committed or printed as a command. So a live stage executes \<^verbatim>\<open>git add\<close>
  exactly when the diff is not empty, and executes \<^verbatim>\<open>git commit\<close> only then, and
  whenever it completes; a dry stage prints them exactly when the diff is not empty.
\<close>

theorem commit_stage_commits_iff_diff:
  "emitted (commitStage env v) st =
     Exec gitDiff #
       (if reportsChanges (fst (diffResult env st))
        then Log CommittingChanges #
               (if isDryRun env then [DryLog gitAdd, DryLog (gitCommit v)]
                else Exec (effective gitAdd) #
                       (if resolved (addResult env st) then [Exec (effective (gitCommit v))]
                        else []))
        else if fst (diffResult env st) = Resolved [] then [Log NoChanges] else [])
   \<and> (\<not> isDryRun env \<longrightarrow>
        (Exec (effective gitAdd) \<in> set (emitted (commitStage env v) st))
          = reportsChanges (fst (diffResult env st))
        \<and> (Exec (effective (gitCommit v)) \<in> set (emitted (commitStage env v) st))
            = (reportsChanges (fst (diffResult env st)) \<and> resolved (addResult env st))
        \<and> (\<forall>c. DryLog c \<notin> set (emitted (commitStage env v) st)))
   \<and> (\<not> isDryRun env \<and> reportsChanges (fst (diffResult env st))
        \<and> snd (commitStage env v st) = Inr () \<longrightarrow>
        Exec (effective (gitCommit v)) \<in> set (emitted (commitStage env v) st))
   \<and> (isDryRun env \<longrightarrow>
        (DryLog gitAdd \<in> set (emitted (commitStage env v) st))
          = reportsChanges (fst (diffResult env st))
        \<and> (DryLog (gitCommit v) \<in> set (emitted (commitStage env v) st))
            = reportsChanges (fst (diffResult env st))
        \<and> (\<forall>c. Exec c \<in> set (emitted (commitStage env v) st) \<longrightarrow> c = gitDiff))
   \<and> (fst (diffResult env st) = Resolved [] \<longrightarrow>
        emitted (commitStage env v) st = [Exec gitDiff, Log NoChanges]
        \<and> snd (commitStage env v st) = Inr ())
   \<and> gitCommit v
       = \<lparr>bin = ''git'', argv = [JStr ''commit'', JStr ''-m'', JStr (''release: v'' @ v)],
          cwd = None, stdio = None\<rparr>"
proof -
  let ?evs = "emitted (commitStage env v) st"
  obtain r fs1 where d: "execa env (trace st) (files st) gitDiff = (r, fs1)"
    by (cases "execa env (trace st) (files st) gitDiff")
  then have r: "diffResult env st = (r, fs1)"
    by (simp add: diffResult_def)
  have both: "?evs =
     Exec gitDiff #
       (if reportsChanges (fst (diffResult env st))
        then Log CommittingChanges #
               (if isDryRun env then [DryLog gitAdd, DryLog (gitCommit v)]
                else Exec (effective gitAdd) #
                       (if resolved (addResult env st) then [Exec (effective (gitCommit v))]
                        else []))
        else if fst (diffResult env st) = Resolved [] then [Log NoChanges] else [])
     \<and> (\<not> isDryRun env \<and> reportsChanges (fst (diffResult env st))
          \<and> snd (commitStage env v st) = Inr () \<longrightarrow> resolved (addResult env st))
     \<and> (fst (diffResult env st) = Resolved [] \<longrightarrow> snd (commitStage env v st) = Inr ())"
  proof (cases r)
    case (Rejected err)
    have "?evs = [Exec gitDiff]"
      using commitStage_rejected [OF d [unfolded Rejected], of v] by (simp add: emitted_def)
    then show ?thesis
      by (simp add: r Rejected reportsChanges_def)
  next
    case (Resolved out)
    show ?thesis
    proof (cases "out = []")
      case True
      have "?evs = [Exec gitDiff, Log NoChanges]" and "snd (commitStage env v st) = Inr ()"
        using commitStage_clean [OF d [unfolded Resolved True], of v]
        by (simp_all add: emitted_def)
      then show ?thesis
        by (simp add: r Resolved True reportsChanges_def)
    next
      case False
      note eq = commitStage_changes [OF d [unfolded Resolved] False, of v]
      show ?thesis
      proof (cases "isDryRun env")
        case True
        have "?evs = [Exec gitDiff, Log CommittingChanges, DryLog gitAdd, DryLog (gitCommit v)]"
          by (rule emitted_eq) (simp add: eq add_then_commit_dry [OF True])
        then show ?thesis
          by (simp add: r Resolved False True reportsChanges_def)
      next
        case live: False
        let ?s = "st\<lparr>files := fs1, trace := trace st @ [Exec gitDiff, Log CommittingChanges]\<rparr>"
        have a: "fst (execa env (trace ?s) (files ?s) (effective gitAdd)) = addResult env st"
          by (simp add: addResult_def r)
        have "?evs = [Exec gitDiff, Log CommittingChanges] @ Exec (effective gitAdd)
            # (if resolved (addResult env st) then [Exec (effective (gitCommit v))] else [])"
          by (rule emitted_eq)
            (simp only: eq add_then_commit_live(1) [OF live, of v ?s] a, simp)
        moreover have "snd (commitStage env v st) = Inr () \<longrightarrow> resolved (addResult env st)"
          using add_then_commit_live(2) [OF live, of v ?s] by (simp only: eq a) simp
        ultimately show ?thesis
          by (simp add: r Resolved False live reportsChanges_def)
      qed
    qed
  qed
  note eq = both [THEN conjunct1]
  have live: "\<not> isDryRun env \<longrightarrow>
        (Exec (effective gitAdd) \<in> set ?evs) = reportsChanges (fst (diffResult env st))
        \<and> (Exec (effective (gitCommit v)) \<in> set ?evs)
            = (reportsChanges (fst (diffResult env st)) \<and> resolved (addResult env st))
        \<and> (\<forall>c. DryLog c \<notin> set ?evs)"
    unfolding eq by (simp add: commit_commands_differ)
  have fin: "\<not> isDryRun env \<and> reportsChanges (fst (diffResult env st))
        \<and> snd (commitStage env v st) = Inr () \<longrightarrow>
        Exec (effective (gitCommit v)) \<in> set ?evs"
    using both [THEN conjunct2, THEN conjunct1] unfolding eq by simp
  have dry: "isDryRun env \<longrightarrow>
        (DryLog gitAdd \<in> set ?evs) = reportsChanges (fst (diffResult env st))
        \<and> (DryLog (gitCommit v) \<in> set ?evs) = reportsChanges (fst (diffResult env st))
        \<and> (\<forall>c. Exec c \<in> set ?evs \<longrightarrow> c = gitDiff)"
    unfolding eq by (simp add: commit_commands_differ)
  have clean: "fst (diffResult env st) = Resolved [] \<longrightarrow>
        ?evs = [Exec gitDiff, Log NoChanges] \<and> snd (commitStage env v st) = Inr ()"
    using both [THEN conjunct2, THEN conjunct2] unfolding eq by (simp add: reportsChanges_def)
  have msg: "gitCommit v
       = \<lparr>bin = ''git'', argv = [JStr ''commit'', JStr ''-m'', JStr (''release: v'' @ v)],
          cwd = None, stdio = None\<rparr>"
    by (simp add: gitCommit_def cmd_def)
  show ?thesis
    by (intro conjI) (rule eq live fin dry clean msg)+
qed

lemma demo_diff:
  "diffResult demoEnv (initialState demoFiles) = (Resolved ''M package.json'', demoFiles)"
  by (simp add: diffResult_def demoEnv_def gitDiff_def cmd_def isTestCommand_def endsWith_def
      initialState_def)

lemma dry_diff:
  "diffResult dryEnv (initialState demoFiles) = (Resolved ''M package.json'', demoFiles)"
  by (simp add: diffResult_def dryEnv_def demoEnv_def gitDiff_def cmd_def isTestCommand_def
      endsWith_def initialState_def)

lemma clean_diff: "diffResult cleanEnv (initialState demoFiles) = (Resolved [], demoFiles)"
  by (simp add: diffResult_def cleanEnv_def initialState_def)

lemma demo_add: "addResult demoEnv (initialState demoFiles) = Resolved []"
  by (simp add: addResult_def demoEnv_def command_defs isTestCommand_def endsWith_def)

theorem commit_stage_commits_iff_diff_witness:
  "\<not> isDryRun demoEnv
   \<and> reportsChanges (fst (diffResult demoEnv (initialState demoFiles)))
   \<and> emitted (commitStage demoEnv ''3.0.1'') (initialState demoFiles)
       = [Exec gitDiff, Log CommittingChanges, Exec (effective gitAdd),
          Exec (effective (gitCommit ''3.0.1''))]
   \<and> isDryRun dryEnv
   \<and> reportsChanges (fst (diffResult dryEnv (initialState demoFiles)))
   \<and> emitted (commitStage dryEnv ''3.0.1'') (initialState demoFiles)
       = [Exec gitDiff, Log CommittingChanges, DryLog gitAdd, DryLog (gitCommit ''3.0.1'')]
   \<and> fst (diffResult cleanEnv (initialState demoFiles)) = Resolved []
   \<and> emitted (commitStage cleanEnv ''3.0.1'') (initialState demoFiles)
       = [Exec gitDiff, Log NoChanges]
   \<and> snd (commitStage cleanEnv ''3.0.1'' (initialState demoFiles)) = Inr ()"
proof -
  have modes: "\<not> isDryRun demoEnv" "isDryRun dryEnv"
    by (simp_all add: isDryRun_def dryEnv_def demoEnv_def)
  show ?thesis
    using commit_stage_commits_iff_diff [of demoEnv "''3.0.1''" "initialState demoFiles"]
      commit_stage_commits_iff_diff [of dryEnv "''3.0.1''" "initialState demoFiles"]
      commit_stage_commits_iff_diff [of cleanEnv "''3.0.1''" "initialState demoFiles"]
    by (simp add: modes demo_diff dry_diff clean_diff demo_add reportsChanges_def resolved_def)
qed

section \<open>Publishing\<close>

lemma andThen_ok: "andThen (ok x) f = f x"
  by (rule ext) (simp add: andThen_def ok_def)

lemma forEach_append: "forEach f (xs @ ys) = andThen (forEach f xs) (\<lambda>u. forEach f ys)"
  by (induction xs) (simp_all add: andThen_ok andThen_assoc)

lemma publishPackage_rejected:
  assumes "pkg \<notin> set (skippedPackages st)"
    and "files st (getPkgRoot pkg) = Some doc"
    and "doc \<noteq> JNull"
    and "\<not> truthyProp (privateProp doc)"
    and "\<not> isDryRun env"
    and "execa env (trace st @ [ReadManifest (getPkgRoot pkg), Log (Publishing pkg)]) (files st)
           (publishCommand env pkg v) = (Rejected stderr, fs2)"
  shows "publishPackage env pkg v st =
    (if includesStr stderr ''previously published''
     then (st\<lparr>files := fs2,
              trace := trace st @ [ReadManifest (getPkgRoot pkg), Log (Publishing pkg),
                                   Exec (publishCommand env pkg v),
                                   Log (SkippingAlreadyPublished pkg)]\<rparr>,
           Inr ())
     else (st\<lparr>files := fs2,
              trace := trace st @ [ReadManifest (getPkgRoot pkg), Log (Publishing pkg),
                                   Exec (publishCommand env pkg v)]\<rparr>,
           Inl (ExecFailed (publishCommand env pkg v) stderr)))"
  using assms
  by (simp add: publishPackage_def andThen_def tryCatch_def readManifest_def step_def emit_def
      runIfNotDry_def run_def effective_publishCommand publishFailed_def log_def throw_def)

text \<open>
  C3: let the loop of lines 154-156 have handled the packages \<open>before\<close> without error, and
  let \<^verbatim>\<open>yarn publish\<close> fail for the next package \<open>pkg\<close>, whose manifest is not marked
  private. If \<^verbatim>\<open>stderr\<close> contains
  \<^verbatim>\<open>previously published\<close>, the script prints the warning and the loop goes on with the
  packages \<open>rest\<close>, as after a successful publish. Otherwise the loop ends with that
  error at once: no later package is read or published.
\<close>

theorem already_published_is_skipped:
  assumes "forEach (\<lambda>p. publishPackage env p v) before st = (st1, Inr ())"
    and "pkg \<notin> set (skippedPackages st1)"
    and "files st1 (getPkgRoot pkg) = Some doc"
    and "doc \<noteq> JNull"
    and "\<not> truthyProp (privateProp doc)"
    and "\<not> isDryRun env"
    and "execa env (trace st1 @ [ReadManifest (getPkgRoot pkg), Log (Publishing pkg)]) (files st1)
           (publishCommand env pkg v) = (Rejected stderr, fs2)"
  shows "(includesStr stderr ''previously published'' \<longrightarrow>
            forEach (\<lambda>p. publishPackage env p v) (before @ pkg # rest) st
            = forEach (\<lambda>p. publishPackage env p v) rest
                (st1\<lparr>files := fs2,
                     trace := trace st1 @ [ReadManifest (getPkgRoot pkg), Log (Publishing pkg),
                                           Exec (publishCommand env pkg v),
                                           Log (SkippingAlreadyPublished pkg)]\<rparr>))
       \<and> (\<not> includesStr stderr ''previously published'' \<longrightarrow>
            forEach (\<lambda>p. publishPackage env p v) (before @ pkg # rest) st
            = (st1\<lparr>files := fs2,
                   trace := trace st1 @ [ReadManifest (getPkgRoot pkg), Log (Publishing pkg),
                                         Exec (publishCommand env pkg v)]\<rparr>,
               Inl (ExecFailed (publishCommand env pkg v) stderr)))"
proof -
  have "forEach (\<lambda>p. publishPackage env p v) (before @ pkg # rest) st
      = andThen (publishPackage env pkg v) (\<lambda>u. forEach (\<lambda>p. publishPackage env p v) rest) st1"
    by (simp add: forEach_append andThen_def assms(1))
  then show ?thesis
    by (simp add: andThen_def publishPackage_rejected [OF assms(2-7)])
qed

lemma republish_run_trace:
  "trace (fst (program republishEnv (initialState demoFiles))) =
    [Prompt (ConfirmRelease ''3.0.1''), Log RunningTests, Log NoUnitTests,
     Log UpdatingCrossDeps]
    @ demoPropagation
    @ [Log BuildingAll,
     Exec (effective yarnBuild),
     Log VerifyingTypes, Log NoDtsTests,
     Exec gitDiff,
     Log CommittingChanges,
     Exec (effective gitAdd),
     Exec (effective (gitCommit ''3.0.1'')),
     Log PublishingPackages, ReadManifest (PkgDir ''reactivity''),
     Log (Publishing ''reactivity''),
     Exec (publishCommand republishEnv ''reactivity'' ''3.0.1''),
     Log (SkippingAlreadyPublished ''reactivity''),
     ReadManifest (PkgDir ''shared''), Log (Publishing ''shared''),
     Exec (publishCommand republishEnv ''shared'' ''3.0.1''),
     Log (Published ''shared'' ''3.0.1''), Log PushingToGitHub,
     Exec (effective (gitTag ''3.0.1'')),
     Exec (effective (gitPushTag ''3.0.1'')),
     Exec (effective gitPush),
     Log EmptyLine]"
  by code_simp

lemma offline_run_trace:
  "trace (fst (program offlineEnv (initialState demoFiles))) =
    [Prompt (ConfirmRelease ''3.0.1''), Log RunningTests, Log NoUnitTests,
     Log UpdatingCrossDeps]
    @ demoPropagation
    @ [Log BuildingAll,
     Exec (effective yarnBuild),
     Log VerifyingTypes, Log NoDtsTests,
     Exec gitDiff,
     Log CommittingChanges,
     Exec (effective gitAdd),
     Exec (effective (gitCommit ''3.0.1'')),
     Log PublishingPackages, ReadManifest (PkgDir ''reactivity''),
     Log (Publishing ''reactivity''),
     Exec (publishCommand offlineEnv ''reactivity'' ''3.0.1''),
     ConsoleError
       (ExecFailed (publishCommand offlineEnv ''reactivity'' ''3.0.1'')
          ''error getaddrinfo ENOTFOUND registry.yarnpkg.com'')]"
  by code_simp

lemma publish_commands_differ:
  "p \<noteq> q \<Longrightarrow> publishCommand env p v \<noteq> publishCommand env' q v'"
  "publishCommand env p v \<noteq> effective yarnBuild" "publishCommand env p v \<noteq> gitDiff"
  "publishCommand env p v \<noteq> effective gitAdd" "publishCommand env p v \<noteq> effective (gitCommit v')"
  by (simp_all add: publishCommand_def getPkgRoot_def command_defs)

lemma already_published_text:
  "includesStr ''error This version was previously published.'' ''previously published''"
  "\<not> includesStr ''error getaddrinfo ENOTFOUND registry.yarnpkg.com'' ''previously published''"
  by (simp_all add: startsWith_def)

theorem already_published_is_skipped_witness:
  "forEach (\<lambda>p. publishPackage republishEnv p ''3.0.1'') [] (initialState demoFiles)
     = (initialState demoFiles, Inr ())
   \<and> ''reactivity'' \<notin> set (skippedPackages (initialState demoFiles))
   \<and> files (initialState demoFiles) (getPkgRoot ''reactivity'') = Some (JObj reactivityManifest)
   \<and> JObj reactivityManifest \<noteq> JNull
   \<and> \<not> truthyProp (privateProp (JObj reactivityManifest))
   \<and> \<not> isDryRun republishEnv
   \<and> execa republishEnv
         (trace (initialState demoFiles)
          @ [ReadManifest (getPkgRoot ''reactivity''), Log (Publishing ''reactivity'')])
         (files (initialState demoFiles)) (publishCommand republishEnv ''reactivity'' ''3.0.1'')
       = (Rejected ''error This version was previously published.'', demoFiles)
   \<and> includesStr ''error This version was previously published.'' ''previously published''
   \<and> forEach (\<lambda>p. publishPackage republishEnv p ''3.0.1'') [''reactivity'', ''shared'']
         (initialState demoFiles)
       = forEach (\<lambda>p. publishPackage republishEnv p ''3.0.1'') [''shared'']
           ((initialState demoFiles)
              \<lparr>files := demoFiles,
               trace := trace (initialState demoFiles)
                        @ [ReadManifest (getPkgRoot ''reactivity''), Log (Publishing ''reactivity''),
                           Exec (publishCommand republishEnv ''reactivity'' ''3.0.1''),
                           Log (SkippingAlreadyPublished ''reactivity'')]\<rparr>)
   \<and> Log (SkippingAlreadyPublished ''reactivity'')
       \<in> set (trace (fst (program republishEnv (initialState demoFiles))))
   \<and> Exec (publishCommand republishEnv ''shared'' ''3.0.1'')
       \<in> set (trace (fst (program republishEnv (initialState demoFiles))))
   \<and> Exec (effective gitPush) \<in> set (trace (fst (program republishEnv (initialState demoFiles))))
   \<and> \<not> isDryRun offlineEnv
   \<and> execa offlineEnv
         (trace (initialState demoFiles)
          @ [ReadManifest (getPkgRoot ''reactivity''), Log (Publishing ''reactivity'')])
         (files (initialState demoFiles)) (publishCommand offlineEnv ''reactivity'' ''3.0.1'')
       = (Rejected ''error getaddrinfo ENOTFOUND registry.yarnpkg.com'', demoFiles)
   \<and> \<not> includesStr ''error getaddrinfo ENOTFOUND registry.yarnpkg.com'' ''previously published''
   \<and> snd (forEach (\<lambda>p. publishPackage offlineEnv p ''3.0.1'') [''reactivity'', ''shared'']
              (initialState demoFiles))
       = Inl (ExecFailed (publishCommand offlineEnv ''reactivity'' ''3.0.1'')
                ''error getaddrinfo ENOTFOUND registry.yarnpkg.com'')
   \<and> Exec (publishCommand offlineEnv ''shared'' ''3.0.1'')
       \<notin> set (trace (fst (program offlineEnv (initialState demoFiles))))"
proof -
  let ?st = "initialState demoFiles"
  have h1: "forEach (\<lambda>p. publishPackage republishEnv p ''3.0.1'') [] ?st = (?st, Inr ())"
    by (simp add: ok_def)
  have h2: "''reactivity'' \<notin> set (skippedPackages ?st)"
    by (simp add: initialState_def)
  have h3: "files ?st (getPkgRoot ''reactivity'') = Some (JObj reactivityManifest)"
    by (simp add: initialState_def demoFiles_def getPkgRoot_def)
  have hn: "JObj reactivityManifest \<noteq> JNull"
    by simp
  have h4: "\<not> truthyProp (privateProp (JObj reactivityManifest))"
    by (simp add: reactivityManifest_def truthyProp_def privateProp_def)
  have h5: "\<not> isDryRun republishEnv"
    by (simp add: isDryRun_def republishEnv_def demoEnv_def)
  have h6: "execa republishEnv
      (trace ?st @ [ReadManifest (getPkgRoot ''reactivity''), Log (Publishing ''reactivity'')])
      (files ?st) (publishCommand republishEnv ''reactivity'' ''3.0.1'')
      = (Rejected ''error This version was previously published.'', demoFiles)"
    by (simp add: republishEnv_def publishCommand_def getPkgRoot_def initialState_def)
  have r1: "Log (SkippingAlreadyPublished ''reactivity'')
      \<in> set (trace (fst (program republishEnv ?st)))"
    by (simp add: republish_run_trace)
  have r2: "Exec (publishCommand republishEnv ''shared'' ''3.0.1'')
      \<in> set (trace (fst (program republishEnv ?st)))"
    by (simp add: republish_run_trace)
  have r3: "Exec (effective gitPush) \<in> set (trace (fst (program republishEnv ?st)))"
    by (simp add: republish_run_trace)
  have o1: "forEach (\<lambda>p. publishPackage offlineEnv p ''3.0.1'') [] ?st = (?st, Inr ())"
    by (simp add: ok_def)
  have o5: "\<not> isDryRun offlineEnv"
    by (simp add: isDryRun_def offlineEnv_def demoEnv_def)
  have o6: "execa offlineEnv
      (trace ?st @ [ReadManifest (getPkgRoot ''reactivity''), Log (Publishing ''reactivity'')])
      (files ?st) (publishCommand offlineEnv ''reactivity'' ''3.0.1'')
      = (Rejected ''error getaddrinfo ENOTFOUND registry.yarnpkg.com'', demoFiles)"
    by (simp add: offlineEnv_def publishCommand_def getPkgRoot_def initialState_def)
  have off: "Exec (publishCommand offlineEnv ''shared'' ''3.0.1'')
      \<notin> set (trace (fst (program offlineEnv ?st)))"
    by (simp add: offline_run_trace demoPropagation_def publish_commands_differ)
  note t = already_published_text(1)
  note u = already_published_text(2)
  note eq = already_published_is_skipped [OF h1 h2 h3 hn h4 h5 h6, of "[''shared'']",
      THEN conjunct1, THEN mp, OF t]
  note fatal = already_published_is_skipped [OF o1 h2 h3 hn h4 o5 o6, of "[''shared'']",
      THEN conjunct2, THEN mp, OF u]
  have stop: "snd (forEach (\<lambda>p. publishPackage offlineEnv p ''3.0.1'') [''reactivity'', ''shared'']
      ?st)
      = Inl (ExecFailed (publishCommand offlineEnv ''reactivity'' ''3.0.1'')
               ''error getaddrinfo ENOTFOUND registry.yarnpkg.com'')"
    using fatal by simp
  show ?thesis
    using eq by (intro conjI h1 h2 h3 hn h4 h5 h6 t r1 r2 r3 o5 o6 u stop off) simp
qed

end
